theory Spec2Isabelle
  imports Main "HOL-Library.Log_Nat" "HOL-Library.Multiset" "HOL-Library.Sublist"
begin

section \<open>Numbers\<close>

text \<open>
  A JavaScript number is an IEEE 754 double.  The finite non-zero values are kept as the
  rational they denote, \<open>Fin 0\<close> is \<open>+0\<close>, and \<open>NegZero\<close> is \<open>-0\<close>.
\<close>

datatype jsnum = NaN | PosInf | NegInf | NegZero | Fin rat

definition pow2 :: "int \<Rightarrow> rat" where
  "pow2 e = (if 0 \<le> e then 2 ^ nat e else 1 / 2 ^ nat (- e))"

text \<open>\<open>flog2 r\<close> is the binary exponent \<open>\<lfloor>log\<^sub>2 r\<rfloor>\<close> of a positive rational.\<close>

definition flog2 :: "rat \<Rightarrow> int" where
  "flog2 r = (case quotient_of r of (a, b) \<Rightarrow>
     (let d = bitlen a - bitlen b in
      if (if 0 \<le> d then b * 2 ^ nat d \<le> a else b \<le> a * 2 ^ nat (- d)) then d else d - 1))"

definition round_half_even :: "rat \<Rightarrow> int" where
  "round_half_even x = (let f = \<lfloor>x\<rfloor>; d = x - of_int f in
     if d < 1 / 2 then f else if 1 / 2 < d then f + 1 else if even f then f else f + 1)"

text \<open>
  Rounding of an exact result to the nearest double, ties to even: 53 significant bits,
  exponents from \<open>-1022\<close> (below which the spacing stays \<open>2\<^sup>-\<^sup>1\<^sup>0\<^sup>7\<^sup>4\<close>) to \<open>1023\<close>
  (above which the result is infinite).
\<close>

definition round_double :: "rat \<Rightarrow> jsnum" where
  "round_double r =
     (if r = 0 then Fin 0
      else let e = max (flog2 \<bar>r\<bar>) (- 1022);
               q = pow2 (e - 52);
               n = round_half_even (r / q)
           in if 1024 \<le> e \<or> (e = 1023 \<and> 2 ^ 53 \<le> \<bar>n\<bar>) then (if 0 < r then PosInf else NegInf)
              else if n = 0 then (if r < 0 then NegZero else Fin 0)
              else Fin (of_int n * q))"

text \<open>The \<open>+\<close> of two numbers (\<open>+=\<close> in the aggregation loop).\<close>

fun num_add :: "jsnum \<Rightarrow> jsnum \<Rightarrow> jsnum" where
  "num_add NaN _ = NaN"
| "num_add _ NaN = NaN"
| "num_add PosInf NegInf = NaN"
| "num_add NegInf PosInf = NaN"
| "num_add PosInf _ = PosInf"
| "num_add _ PosInf = PosInf"
| "num_add NegInf _ = NegInf"
| "num_add _ NegInf = NegInf"
| "num_add NegZero y = y"
| "num_add x NegZero = x"
| "num_add (Fin a) (Fin b) = round_double (a + b)"

section \<open>Values\<close>

text \<open>
  The values the handler sees: what \<open>JSON.parse\<close> produces, and \<open>undefined\<close> for an absent
  property.  An object is the list of its own properties in creation order, with distinct
  keys; lookups take the first binding.  A string is the list of its code units, each
  below 256.
\<close>

datatype jsval =
    JUndefined
  | JNull
  | JBool bool
  | JNum jsnum
  | JStr string
  | JArr "jsval list"
  | JObj "(string \<times> jsval) list"

datatype js_error = Error string | TypeError string | FetchError string

fun message :: "js_error \<Rightarrow> string" where
  "message (Error m) = m"
| "message (TypeError m) = m"
| "message (FetchError m) = m"

text \<open>Sequencing: the first error ends the evaluation.\<close>

definition bind :: "js_error + 'a \<Rightarrow> ('a \<Rightarrow> js_error + 'b) \<Rightarrow> js_error + 'b" where
  "bind m f = (case m of Inl err \<Rightarrow> Inl err | Inr x \<Rightarrow> f x)"

text \<open>Truthiness, as \<open>||\<close>, \<open>!\<close> and \<open>if\<close> read a value.\<close>

fun truthy :: "jsval \<Rightarrow> bool" where
  "truthy JUndefined = False"
| "truthy JNull = False"
| "truthy (JBool b) = b"
| "truthy (JNum n) = (n \<noteq> NaN \<and> n \<noteq> Fin 0 \<and> n \<noteq> NegZero)"
| "truthy (JStr s) = (s \<noteq> [])"
| "truthy (JArr _) = True"
| "truthy (JObj _) = True"

definition js_or :: "jsval \<Rightarrow> jsval \<Rightarrow> jsval" where
  "js_or a b = (if truthy a then a else b)"

definition intercalate :: "string \<Rightarrow> string list \<Rightarrow> string" where
  "intercalate sep xs = (case xs of [] \<Rightarrow> [] | y # ys \<Rightarrow> y @ concat (map (\<lambda>z. sep @ z) ys))"

text \<open>
  String conversion, as a template literal, a property key and \<open>parseFloat\<close> apply it.  A
  plain object converts through the \<open>toString\<close> it inherits; an object that has a property
  \<open>toString\<close> of its own (which, in parsed JSON, is no function) cannot be converted, and the
  conversion throws.  An array joins the conversions of its elements, \<open>null\<close> and
  \<open>undefined\<close> as empty strings.  The decimal rendering of a number is the engine's and is a
  parameter.
\<close>

fun to_string :: "(jsnum \<Rightarrow> string) \<Rightarrow> jsval \<Rightarrow> js_error + string"
  and to_strings :: "(jsnum \<Rightarrow> string) \<Rightarrow> jsval list \<Rightarrow> js_error + string list" where
  "to_string nts JUndefined = Inr ''undefined''"
| "to_string nts JNull = Inr ''null''"
| "to_string nts (JBool b) = Inr (if b then ''true'' else ''false'')"
| "to_string nts (JNum n) = Inr (nts n)"
| "to_string nts (JStr s) = Inr s"
| "to_string nts (JArr xs) = bind (to_strings nts xs) (\<lambda>ss. Inr (intercalate '','' ss))"
| "to_string nts (JObj kvs) =
     (if map_of kvs ''toString'' = None then Inr ''[object Object]''
      else Inl (TypeError ''Cannot convert object to primitive value''))"
| "to_strings nts [] = Inr []"
| "to_strings nts (x # xs) =
     bind (if x = JUndefined \<or> x = JNull then Inr [] else to_string nts x) (\<lambda>s.
     bind (to_strings nts xs) (\<lambda>ss. Inr (s # ss)))"

text \<open>
  The JSON document that \<open>JSON.stringify\<close> writes for a value: a property whose value is
  \<open>undefined\<close> is left out, \<open>undefined\<close> in an array and a non-finite number become
  \<open>null\<close>, \<open>-0\<close> becomes \<open>0\<close>.  For \<open>undefined\<close> itself nothing is written and the
  call returns \<open>undefined\<close>.
\<close>

fun to_json :: "jsval \<Rightarrow> jsval" where
  "to_json JUndefined = JNull"
| "to_json JNull = JNull"
| "to_json (JBool b) = JBool b"
| "to_json (JNum n) = (case n of Fin r \<Rightarrow> JNum (Fin r) | NegZero \<Rightarrow> JNum (Fin 0) | _ \<Rightarrow> JNull)"
| "to_json (JStr s) = JStr s"
| "to_json (JArr xs) = JArr (map to_json xs)"
| "to_json (JObj kvs) =
     JObj (map (\<lambda>kv. (fst kv, to_json (snd kv))) (filter (\<lambda>kv. snd kv \<noteq> JUndefined) kvs))"

definition json_document :: "jsval \<Rightarrow> jsval option" where
  "json_document v = (if v = JUndefined then None else Some (to_json v))"

section \<open>parseFloat\<close>

definition is_digit :: "char \<Rightarrow> bool" where
  "is_digit c = (48 \<le> (of_char c :: int) \<and> (of_char c :: int) \<le> 57)"

definition digit_value :: "char \<Rightarrow> int" where
  "digit_value c = of_char c - 48"

definition digits_value :: "string \<Rightarrow> int" where
  "digits_value ds = foldl (\<lambda>n c. 10 * n + digit_value c) 0 ds"

text \<open>
  White space that \<open>parseFloat\<close> skips: tab, line feed, vertical tab, form feed, carriage
  return, space and no-break space (a \<open>char\<close> stands for a code unit below 256).
\<close>

definition is_space :: "char \<Rightarrow> bool" where
  "is_space c = ((of_char c :: int) \<in> {9, 10, 11, 12, 13, 32, 160})"

text \<open>
  The exponent part \<open>e\<close>, optional sign, one digit or more; when it is not there
  nothing is consumed and the exponent is 0.
\<close>

definition parse_exponent :: "string \<Rightarrow> int" where
  "parse_exponent s =
     (case s of
        [] \<Rightarrow> 0
      | c # t \<Rightarrow>
          if c = CHR ''e'' \<or> c = CHR ''E'' then
            (let neg = (t \<noteq> [] \<and> hd t = CHR ''-'');
                 u = (if t \<noteq> [] \<and> (hd t = CHR ''-'' \<or> hd t = CHR ''+'') then tl t else t);
                 ds = takeWhile is_digit u
             in if ds = [] then 0
                else if neg then - digits_value ds else digits_value ds)
          else 0)"

definition pow10 :: "int \<Rightarrow> rat" where
  "pow10 e = (if 0 \<le> e then 10 ^ nat e else 1 / 10 ^ nat (- e))"

text \<open>
  \<open>parseFloat\<close> on a string: the longest prefix, after leading white space, that is a
  decimal literal (sign, \<open>Infinity\<close>, or digits with an optional fraction and exponent),
  rounded to a double; \<open>NaN\<close> when there is none.
\<close>

definition parseFloat_string :: "string \<Rightarrow> jsnum" where
  "parseFloat_string s0 =
     (let s = dropWhile is_space s0;
          neg = (s \<noteq> [] \<and> hd s = CHR ''-'');
          t = (if s \<noteq> [] \<and> (hd s = CHR ''-'' \<or> hd s = CHR ''+'') then tl s else s)
      in if take 8 t = ''Infinity'' then (if neg then NegInf else PosInf)
         else
           let ip = takeWhile is_digit t;
               r1 = dropWhile is_digit t;
               fp = (if r1 \<noteq> [] \<and> hd r1 = CHR ''.'' then takeWhile is_digit (tl r1) else []);
               r2 = (if r1 \<noteq> [] \<and> hd r1 = CHR ''.'' then dropWhile is_digit (tl r1) else r1)
           in if ip = [] \<and> fp = [] then NaN
              else
                let m = digits_value (ip @ fp);
                    e = parse_exponent r2 - int (length fp)
                in if m = 0 then (if neg then NegZero else Fin 0)
                   else round_double ((if neg then - 1 else 1) * of_int m * pow10 e))"

definition parseFloat :: "(jsnum \<Rightarrow> string) \<Rightarrow> jsval \<Rightarrow> js_error + jsnum" where
  "parseFloat nts v = bind (to_string nts v) (\<lambda>s. Inr (parseFloat_string s))"

section \<open>Property access\<close>

definition lookup :: "(string \<times> jsval) list \<Rightarrow> string \<Rightarrow> jsval" where
  "lookup kvs k = (case map_of kvs k of None \<Rightarrow> JUndefined | Some v \<Rightarrow> v)"

definition cannot_read :: "jsval \<Rightarrow> string \<Rightarrow> js_error" where
  "cannot_read v k =
     TypeError (''Cannot read properties of '' @ (if v = JNull then ''null'' else ''undefined'')
                @ '' (reading '' @ [CHR 0x27] @ k @ [CHR 0x27] @ '')'')"

text \<open>
  \<open>v.k\<close> for the property names this program reads (\<open>limit\<close>, \<open>query\<close>, \<open>results\<close>,
  \<open>properties\<close>, \<open>id\<close>, ...), none of which is a built-in member of a string, an array
  or a plain object: reading from \<open>undefined\<close> or \<open>null\<close> throws, an absent property is
  \<open>undefined\<close>.
\<close>

fun get_prop :: "jsval \<Rightarrow> string \<Rightarrow> js_error + jsval" where
  "get_prop JUndefined k = Inl (cannot_read JUndefined k)"
| "get_prop JNull k = Inl (cannot_read JNull k)"
| "get_prop (JObj kvs) k = Inr (lookup kvs k)"
| "get_prop _ k = Inr JUndefined"

text \<open>\<open>v[0]\<close>.\<close>

fun get_first :: "jsval \<Rightarrow> js_error + jsval" where
  "get_first JUndefined = Inl (cannot_read JUndefined ''0'')"
| "get_first JNull = Inl (cannot_read JNull ''0'')"
| "get_first (JArr xs) = Inr (case xs of [] \<Rightarrow> JUndefined | x # _ \<Rightarrow> x)"
| "get_first (JStr s) = Inr (case s of [] \<Rightarrow> JUndefined | c # _ \<Rightarrow> JStr [c])"
| "get_first (JObj kvs) = Inr (lookup kvs ''0'')"
| "get_first _ = Inr JUndefined"

text \<open>
  \<open>v.includes(needle)\<close> with a string needle: a substring test on a string, a membership
  test on an array; any other value has no method of that name.
\<close>

fun js_includes :: "string \<Rightarrow> jsval \<Rightarrow> string \<Rightarrow> js_error + bool" where
  "js_includes expr JUndefined needle = Inl (cannot_read JUndefined ''includes'')"
| "js_includes expr JNull needle = Inl (cannot_read JNull ''includes'')"
| "js_includes expr (JStr s) needle = Inr (sublist needle s)"
| "js_includes expr (JArr xs) needle = Inr (JStr needle \<in> set xs)"
| "js_includes expr _ needle = Inl (TypeError (expr @ ''.includes is not a function''))"

section \<open>The request helper\<close>

record http_request =
  url :: string
  http_method :: "string option"
  headers :: "(string \<times> string) list"
  body :: "jsval option"

text \<open>
  What the handler reads of a response: \<open>ok\<close>, \<open>status\<close>, and the outcomes of \<open>text()\<close>
  and \<open>json()\<close>.
\<close>

record response =
  ok :: bool
  status :: nat
  resp_text :: "js_error + string"
  resp_json :: "js_error + jsval"

text \<open>
  The surroundings of a call: the credential of the process, the remote service behind
  \<open>fetch\<close> (a rejected promise is \<open>Inl\<close>), and the two renderings of the engine, of a JSON
  document with indentation 2 and of a number.
\<close>

record env =
  HUBSPOT_API_KEY :: "string option"
  fetch :: "http_request \<Rightarrow> js_error + response"
  stringify :: "jsval \<Rightarrow> string"
  number_to_string :: "jsnum \<Rightarrow> string"

record options =
  opt_method :: "string option"
  opt_body :: "jsval option"
  opt_headers :: "(string \<times> string) list"

definition HUBSPOT_API_BASE :: string where
  "HUBSPOT_API_BASE = ''https://api.hubapi.com''"

definition digit_char :: "nat \<Rightarrow> char" where
  "digit_char n = char_of (48 + n)"

fun show_nat :: "nat \<Rightarrow> string" where
  "show_nat n = (if n < 10 then [digit_char n] else show_nat (n div 10) @ [digit_char (n mod 10)])"

declare show_nat.simps [simp del]

text \<open>Assignment to a key: the binding is replaced where it stands, or added at the end.\<close>

fun assign :: "'k \<Rightarrow> 'v \<Rightarrow> ('k \<times> 'v) list \<Rightarrow> ('k \<times> 'v) list" where
  "assign k v [] = [(k, v)]"
| "assign k v (p # ps) = (if fst p = k then (k, v) # ps else p # assign k v ps)"

definition hubspotRequest :: "env \<Rightarrow> string \<Rightarrow> options \<Rightarrow> http_request \<times> (js_error + jsval)" where
  "hubspotRequest e endpoint opts =
     (let req = \<lparr> url = HUBSPOT_API_BASE @ endpoint,
                   http_method = opt_method opts,
                   headers = foldl (\<lambda>hs kv. assign (fst kv) (snd kv) hs)
                     [(''Authorization'',
                        ''Bearer '' @ (case HUBSPOT_API_KEY e of None \<Rightarrow> ''undefined'' | Some k \<Rightarrow> k)),
                      (''Content-Type'', ''application/json'')]
                     (opt_headers opts),
                   body = opt_body opts \<rparr>
      in (req,
          case fetch e req of
            Inl err \<Rightarrow> Inl err
          | Inr resp \<Rightarrow>
              if \<not> ok resp then
                (case resp_text resp of
                   Inl err \<Rightarrow> Inl err
                 | Inr error \<Rightarrow>
                     Inl (Error (''HubSpot API error: '' @ show_nat (status resp) @ '' - '' @ error)))
              else resp_json resp))"

section \<open>Tool results\<close>

record content_block =
  block_type :: string
  block_text :: "string option"

text \<open>
  \<open>isError\<close> is \<open>None\<close> where the returned object has no such property, which the
  protocol reads as false.
\<close>

record tool_result =
  content :: "content_block list"
  isError :: "bool option"

definition text_result :: "string option \<Rightarrow> tool_result" where
  "text_result t = \<lparr> content = [\<lparr> block_type = ''text'', block_text = t \<rparr>], isError = None \<rparr>"

definition error_result :: "js_error \<Rightarrow> tool_result" where
  "error_result error =
     \<lparr> content = [\<lparr> block_type = ''text'', block_text = Some (''Error: '' @ message error) \<rparr>],
       isError = Some True \<rparr>"

text \<open>\<open>JSON.stringify(v, null, 2)\<close>; \<open>None\<close> is \<open>undefined\<close>.\<close>

definition JSON_stringify :: "env \<Rightarrow> jsval \<Rightarrow> string option" where
  "JSON_stringify e v = map_option (stringify e) (json_document v)"

definition interpolate :: "string option \<Rightarrow> string" where
  "interpolate t = (case t of None \<Rightarrow> ''undefined'' | Some s \<Rightarrow> s)"

text \<open>
  One outbound call: the request is built (which may throw before anything is sent),
  sent through \<open>hubspotRequest\<close>, and the reply is turned into the result.  The first
  component is the list of requests sent.
\<close>

definition call_api ::
  "env \<Rightarrow> js_error + (string \<times> options) \<Rightarrow> (jsval \<Rightarrow> js_error + tool_result)
     \<Rightarrow> http_request list \<times> (js_error + tool_result)" where
  "call_api e build finish =
     (case build of
        Inl err \<Rightarrow> ([], Inl err)
      | Inr (endpoint, opts) \<Rightarrow>
          (case hubspotRequest e endpoint opts of
             (req, Inl err) \<Rightarrow> ([req], Inl err)
           | (req, Inr data) \<Rightarrow> ([req], finish data)))"

definition post :: "jsval \<Rightarrow> options" where
  "post b = \<lparr> opt_method = Some ''POST'', opt_body = json_document b, opt_headers = [] \<rparr>"

definition no_options :: options where
  "no_options = \<lparr> opt_method = None, opt_body = None, opt_headers = [] \<rparr>"

definition filter_on :: "string \<Rightarrow> string \<Rightarrow> jsval \<Rightarrow> jsval" where
  "filter_on p operator v =
     JObj [(''filters'',
            JArr [JObj [(''propertyName'', JStr p), (''operator'', JStr operator), (''value'', v)]])]"

section \<open>The tools\<close>

definition search_contacts :: "env \<Rightarrow> jsval \<Rightarrow> http_request list \<times> (js_error + tool_result)" where
  "search_contacts e args =
     call_api e
       (bind (get_prop args ''limit'') (\<lambda>l.
        bind (get_prop args ''query'') (\<lambda>query.
          Inr (''/crm/v3/objects/contacts/search'',
               post (JObj
                 [(''filterGroups'',
                   JArr [filter_on ''email'' ''CONTAINS_TOKEN'' query,
                         filter_on ''firstname'' ''CONTAINS_TOKEN'' query,
                         filter_on ''lastname'' ''CONTAINS_TOKEN'' query]),
                  (''properties'',
                   JArr [JStr ''firstname'', JStr ''lastname'', JStr ''email'', JStr ''phone'',
                         JStr ''company'']),
                  (''limit'', js_or l (JNum (Fin 10)))])))))
       (\<lambda>data. bind (get_prop data ''results'') (\<lambda>results.
          Inr (text_result (JSON_stringify e results))))"

definition contact_properties :: "string list" where
  "contact_properties =
     [''firstname'', ''lastname'', ''email'', ''phone'', ''company'', ''lifecyclestage'']"

definition get_contact :: "env \<Rightarrow> jsval \<Rightarrow> http_request list \<times> (js_error + tool_result)" where
  "get_contact e args =
     (case bind (get_prop args ''contact_id'') (\<lambda>contact_id.
             bind (js_includes ''args.contact_id'' contact_id ''@'') (\<lambda>isEmail.
               Inr (contact_id, isEmail))) of
        Inl err \<Rightarrow> ([], Inl err)
      | Inr (contact_id, isEmail) \<Rightarrow>
          if isEmail then
            call_api e
              (Inr (''/crm/v3/objects/contacts/search'',
                    post (JObj
                      [(''filterGroups'', JArr [filter_on ''email'' ''EQ'' contact_id]),
                       (''properties'', JArr (map JStr contact_properties)),
                       (''limit'', JNum (Fin 1))])))
              (\<lambda>searchData. bind (get_prop searchData ''results'') (\<lambda>results.
                 bind (get_first results) (\<lambda>data.
                   Inr (text_result (JSON_stringify e data)))))
          else
            call_api e
              (bind (to_string (number_to_string e) contact_id) (\<lambda>ident.
                 Inr (''/crm/v3/objects/contacts/'' @ ident
                        @ ''?properties=firstname,lastname,email,phone,company,lifecyclestage'',
                      no_options)))
              (\<lambda>data. Inr (text_result (JSON_stringify e data))))"

definition created_text :: "env \<Rightarrow> string \<Rightarrow> jsval \<Rightarrow> js_error + tool_result" where
  "created_text e what data =
     bind (get_prop data ''id'') (\<lambda>ident.
     bind (to_string (number_to_string e) ident) (\<lambda>shown.
       Inr (text_result (Some
         (what @ '' created successfully! ID: '' @ shown
            @ [CHR 0x0A] @ interpolate (JSON_stringify e data))))))"

definition create_contact :: "env \<Rightarrow> jsval \<Rightarrow> http_request list \<times> (js_error + tool_result)" where
  "create_contact e args =
     call_api e
       (Inr (''/crm/v3/objects/contacts'', post (JObj [(''properties'', args)])))
       (created_text e ''Contact'')"

definition search_deals :: "env \<Rightarrow> jsval \<Rightarrow> http_request list \<times> (js_error + tool_result)" where
  "search_deals e args =
     call_api e
       (bind (get_prop args ''limit'') (\<lambda>l.
        bind (get_prop args ''pipeline_stage'') (\<lambda>pipeline_stage.
          let filterGroups =
                (if truthy pipeline_stage then [filter_on ''dealstage'' ''EQ'' pipeline_stage] else [])
          in Inr (''/crm/v3/objects/deals/search'',
                  post (JObj
                    [(''filterGroups'',
                      if 0 < length filterGroups then JArr filterGroups else JUndefined),
                     (''properties'',
                      JArr [JStr ''dealname'', JStr ''amount'', JStr ''dealstage'', JStr ''pipeline'',
                            JStr ''closedate'']),
                     (''limit'', js_or l (JNum (Fin 20)))])))))
       (\<lambda>data. bind (get_prop data ''results'') (\<lambda>results.
          Inr (text_result (JSON_stringify e results))))"

definition deal_properties :: "jsval \<Rightarrow> js_error + jsval" where
  "deal_properties args =
     bind (get_prop args ''dealname'') (\<lambda>dealname.
     bind (get_prop args ''amount'') (\<lambda>amount.
     bind (get_prop args ''dealstage'') (\<lambda>dealstage.
     bind (get_prop args ''pipeline'') (\<lambda>pipeline.
       Inr (JObj [(''dealname'', dealname), (''amount'', amount), (''dealstage'', dealstage),
                  (''pipeline'', js_or pipeline (JStr ''default''))])))))"

definition create_deal :: "env \<Rightarrow> jsval \<Rightarrow> http_request list \<times> (js_error + tool_result)" where
  "create_deal e args =
     call_api e
       (bind (deal_properties args) (\<lambda>properties.
          Inr (''/crm/v3/objects/deals'', post (JObj [(''properties'', properties)]))))
       (created_text e ''Deal'')"

subsection \<open>The pipeline summary\<close>

record stage_entry =
  stage_count :: nat
  stage_totalValue :: jsnum

record pipeline_summary =
  summary :: "(string \<times> stage_entry) list"
  totalDeals :: nat
  totalValue :: jsnum

text \<open>
  \<open>summary\<close> starts as \<open>{}\<close>, a plain object, so \<open>summary[stage]\<close> also finds what every
  plain object inherits.  Each of these members is a function or an object, hence truthy.
\<close>

definition object_prototype_members :: "string list" where
  "object_prototype_members =
     [''constructor'', ''__defineGetter__'', ''__defineSetter__'', ''hasOwnProperty'',
      ''__lookupGetter__'', ''__lookupSetter__'', ''isPrototypeOf'', ''propertyIsEnumerable'',
      ''toString'', ''valueOf'', ''__proto__'', ''toLocaleString'']"

text \<open>
  The key under which a deal is counted, \<open>dealstage || "Unknown"\<close> as a property key, and
  its amount, \<open>parseFloat(amount) || 0\<close>.  Either conversion may throw.
\<close>

definition stage_of :: "(jsnum \<Rightarrow> string) \<Rightarrow> jsval \<Rightarrow> js_error + string" where
  "stage_of nts dealstage = to_string nts (js_or dealstage (JStr ''Unknown''))"

definition amount_of :: "(jsnum \<Rightarrow> string) \<Rightarrow> jsval \<Rightarrow> js_error + jsnum" where
  "amount_of nts a =
     bind (parseFloat nts a) (\<lambda>x. Inr (if truthy (JNum x) then x else Fin 0))"

definition bump :: "string \<Rightarrow> jsnum \<Rightarrow> (string \<times> stage_entry) list \<Rightarrow> (string \<times> stage_entry) list" where
  "bump stage amount s =
     map (\<lambda>p. if fst p = stage
               then (fst p, \<lparr> stage_count = stage_count (snd p) + 1,
                              stage_totalValue = num_add (stage_totalValue (snd p)) amount \<rparr>)
               else p) s"

text \<open>
  The body of the \<open>forEach\<close> callback on the pair of \<open>summary\<close> and \<open>totalValue\<close>: the
  properties are read, the amount is parsed, and the stage is converted to a key where
  \<open>summary[stage]\<close> is first read.  When the key names an inherited member,
  \<open>!summary[stage]\<close> is false and the two updates go to that member: \<open>summary\<close> gains
  nothing.  A count is the length of a part of an array, below \<open>2\<^sup>3\<^sup>2\<close>, where \<open>++\<close> is
  exact.
\<close>

definition tally ::
  "(jsnum \<Rightarrow> string) \<Rightarrow> (string \<times> stage_entry) list \<times> jsnum \<Rightarrow> jsval
     \<Rightarrow> js_error + (string \<times> stage_entry) list \<times> jsnum" where
  "tally nts acc deal =
     bind (get_prop deal ''properties'') (\<lambda>properties.
     bind (get_prop properties ''dealstage'') (\<lambda>dealstage.
     bind (get_prop properties ''amount'') (\<lambda>a.
     bind (amount_of nts a) (\<lambda>amount.
     bind (stage_of nts dealstage) (\<lambda>stage.
       let s = fst acc
       in Inr (if stage \<in> set object_prototype_members then s
               else bump stage amount
                      (if map_of s stage = None
                       then s @ [(stage, \<lparr> stage_count = 0, stage_totalValue = Fin 0 \<rparr>)]
                       else s),
               num_add (snd acc) amount))))))"

fun forEach_tally ::
  "(jsnum \<Rightarrow> string) \<Rightarrow> (string \<times> stage_entry) list \<times> jsnum \<Rightarrow> jsval list
     \<Rightarrow> js_error + (string \<times> stage_entry) list \<times> jsnum" where
  "forEach_tally nts acc [] = Inr acc"
| "forEach_tally nts acc (deal # deals) =
     (case tally nts acc deal of
        Inl err \<Rightarrow> Inl err
      | Inr acc' \<Rightarrow> forEach_tally nts acc' deals)"

definition aggregate :: "(jsnum \<Rightarrow> string) \<Rightarrow> jsval list \<Rightarrow> js_error + pipeline_summary" where
  "aggregate nts deals =
     bind (forEach_tally nts ([], Fin 0) deals) (\<lambda>acc.
       Inr \<lparr> summary = fst acc, totalDeals = length deals, totalValue = snd acc \<rparr>)"

fun summarize_results :: "(jsnum \<Rightarrow> string) \<Rightarrow> jsval \<Rightarrow> js_error + pipeline_summary" where
  "summarize_results nts JUndefined = Inl (cannot_read JUndefined ''forEach'')"
| "summarize_results nts JNull = Inl (cannot_read JNull ''forEach'')"
| "summarize_results nts (JArr deals) = aggregate nts deals"
| "summarize_results nts _ = Inl (TypeError ''data.results.forEach is not a function'')"

text \<open>
  The object that is rendered.  The keys of \<open>summary\<close> stand in creation order; the
  rendering enumerates them as the engine does.
\<close>

definition summary_value :: "pipeline_summary \<Rightarrow> jsval" where
  "summary_value p =
     JObj [(''summary'',
            JObj (map (\<lambda>kv. (fst kv,
                     JObj [(''count'', JNum (Fin (of_nat (stage_count (snd kv))))),
                           (''totalValue'', JNum (stage_totalValue (snd kv)))]))
                  (summary p))),
           (''totalDeals'', JNum (Fin (of_nat (totalDeals p)))),
           (''totalValue'', JNum (totalValue p))]"

definition get_pipeline_summary :: "env \<Rightarrow> jsval \<Rightarrow> http_request list \<times> (js_error + tool_result)" where
  "get_pipeline_summary e args =
     call_api e
       (Inr (''/crm/v3/objects/deals/search'',
             post (JObj
               [(''properties'', JArr [JStr ''dealname'', JStr ''amount'', JStr ''dealstage'']),
                (''limit'', JNum (Fin 100))])))
       (\<lambda>data. bind (get_prop data ''results'') (\<lambda>results.
          bind (summarize_results (number_to_string e) results) (\<lambda>p.
            Inr (text_result (Some
              (''Pipeline Summary:'' @ [CHR 0x0A] @ interpolate (JSON_stringify e (summary_value p))))))))"

section \<open>The dispatcher\<close>

record tool_call_request =
  name :: string
  arguments :: jsval

text \<open>The \<open>switch\<close> inside the \<open>try\<close> block.\<close>

definition dispatch :: "env \<Rightarrow> tool_call_request \<Rightarrow> http_request list \<times> (js_error + tool_result)" where
  "dispatch e request =
     (let args = arguments request in
      if name request = ''search_contacts'' then search_contacts e args
      else if name request = ''get_contact'' then get_contact e args
      else if name request = ''create_contact'' then create_contact e args
      else if name request = ''search_deals'' then search_deals e args
      else if name request = ''create_deal'' then create_deal e args
      else if name request = ''get_pipeline_summary'' then get_pipeline_summary e args
      else ([], Inl (Error (''Unknown tool: '' @ name request))))"

text \<open>The handler: the \<open>try\<close> block and its \<open>catch\<close>.\<close>

definition invoke :: "env \<Rightarrow> tool_call_request \<Rightarrow> http_request list \<times> tool_result" where
  "invoke e request =
     (case dispatch e request of
        (sent, Inl error) \<Rightarrow> (sent, error_result error)
      | (sent, Inr result) \<Rightarrow> (sent, result))"

section \<open>The registry\<close>

text \<open>
  The tools as \<open>ListTools\<close> advertises them: the name, the description, the fields of the
  \<open>inputSchema\<close> with their types, and the required fields.  The descriptions and defaults
  of the fields are left out.
\<close>

record tool_definition =
  tool_name :: string
  description :: string
  properties :: "(string \<times> string) list"
  required :: "string list"

definition listTools :: "tool_definition list" where
  "listTools =
     [\<lparr> tool_name = ''search_contacts'',
        description = ''Search for contacts in HubSpot by name, email, or company'',
        properties = [(''query'', ''string''), (''limit'', ''number'')],
        required = [''query''] \<rparr>,
      \<lparr> tool_name = ''get_contact'',
        description = ''Get detailed information about a specific contact'',
        properties = [(''contact_id'', ''string'')],
        required = [''contact_id''] \<rparr>,
      \<lparr> tool_name = ''create_contact'',
        description = ''Create a new contact in HubSpot'',
        properties = [(''email'', ''string''), (''firstname'', ''string''), (''lastname'', ''string''),
                      (''phone'', ''string''), (''company'', ''string'')],
        required = [''email''] \<rparr>,
      \<lparr> tool_name = ''search_deals'',
        description = ''Search for deals in HubSpot pipeline'',
        properties = [(''pipeline_stage'', ''string''), (''limit'', ''number'')],
        required = [] \<rparr>,
      \<lparr> tool_name = ''create_deal'',
        description = ''Create a new deal in HubSpot'',
        properties = [(''dealname'', ''string''), (''amount'', ''number''), (''dealstage'', ''string''),
                      (''pipeline'', ''string'')],
        required = [''dealname'', ''amount'', ''dealstage''] \<rparr>,
      \<lparr> tool_name = ''get_pipeline_summary'',
        description = ''Get a summary of all deals by pipeline stage'',
        properties = [],
        required = [] \<rparr>]"

section \<open>Arguments and replies\<close>

text \<open>
  An argument object that meets a tool's \<open>inputSchema\<close> in its required fields: each is
  present with the declared type.
\<close>

fun has_type :: "string \<Rightarrow> jsval \<Rightarrow> bool" where
  "has_type t (JStr _) = (t = ''string'')"
| "has_type t (JNum _) = (t = ''number'')"
| "has_type t _ = False"

definition valid_args :: "tool_definition \<Rightarrow> jsval \<Rightarrow> bool" where
  "valid_args d args =
     (case args of
        JObj kvs \<Rightarrow>
          list_all (\<lambda>k. case (map_of kvs k, map_of (properties d) k) of
                           (Some v, Some t) \<Rightarrow> has_type t v
                         | _ \<Rightarrow> False) (required d)
      | _ \<Rightarrow> False)"

text \<open>
  The remote CRM service is outside the repository; what a call needs of its replies is
  stated as an assumption on them.  A record is an object with an \<open>id\<close> and a \<open>properties\<close>
  object, the id and the values of the properties being strings, numbers, booleans or
  \<open>null\<close> (the service reports a property as a string, and as \<open>null\<close> when it is not set);
  a search answers with an object whose \<open>results\<close> is an array of records.
\<close>

definition scalar :: "jsval \<Rightarrow> bool" where
  "scalar v = (case v of JArr _ \<Rightarrow> False | JObj _ \<Rightarrow> False | _ \<Rightarrow> True)"

definition crm_record :: "jsval \<Rightarrow> bool" where
  "crm_record v =
     (case v of
        JObj kvs \<Rightarrow>
          scalar (lookup kvs ''id'') \<and>
          (case map_of kvs ''properties'' of
             Some (JObj ps) \<Rightarrow> list_all (\<lambda>kv. scalar (snd kv)) ps
           | _ \<Rightarrow> False)
      | _ \<Rightarrow> False)"

definition search_reply :: "jsval \<Rightarrow> bool" where
  "search_reply v =
     (case v of
        JObj kvs \<Rightarrow> (case map_of kvs ''results'' of Some (JArr rs) \<Rightarrow> list_all crm_record rs | _ \<Rightarrow> False)
      | _ \<Rightarrow> False)"

text \<open>
  An API call that succeeds: the request is answered with a success status and a JSON body
  of the shape of the endpoint called.
\<close>

definition api_success :: "env \<Rightarrow> http_request \<Rightarrow> bool" where
  "api_success e req =
     (case fetch e req of
        Inl _ \<Rightarrow> False
      | Inr resp \<Rightarrow>
          ok resp \<and>
          (case resp_json resp of
             Inl _ \<Rightarrow> False
           | Inr data \<Rightarrow> if suffix ''/search'' (url req) then search_reply data else crm_record data))"

text \<open>\<open>fetch\<close> sends a \<open>GET\<close> when the options name no method.\<close>

definition effective_method :: "http_request \<Rightarrow> string" where
  "effective_method req = (case http_method req of None \<Rightarrow> ''GET'' | Some m \<Rightarrow> m)"

section \<open>Reading the aggregation\<close>

text \<open>
  What the loop reads of a deal: the values under \<open>properties\<close>, the key of the stage and the
  amount.  A deal is readable when the loop body does not throw on it: neither the deal
  nor its \<open>properties\<close> is \<open>null\<close> or \<open>undefined\<close>, and the amount and the stage convert.
  For a deal that is not readable the stage and the amount are not read; the defaults below
  stand in for them and are never used.
\<close>

definition field :: "jsval \<Rightarrow> string \<Rightarrow> jsval" where
  "field v k = (case v of JObj kvs \<Rightarrow> lookup kvs k | _ \<Rightarrow> JUndefined)"

definition succeeds :: "js_error + 'a \<Rightarrow> bool" where
  "succeeds m = (case m of Inl _ \<Rightarrow> False | Inr _ \<Rightarrow> True)"

definition deal_stage :: "(jsnum \<Rightarrow> string) \<Rightarrow> jsval \<Rightarrow> string" where
  "deal_stage nts deal =
     (case stage_of nts (field (field deal ''properties'') ''dealstage'') of
        Inl _ \<Rightarrow> [] | Inr stage \<Rightarrow> stage)"

definition deal_amount :: "(jsnum \<Rightarrow> string) \<Rightarrow> jsval \<Rightarrow> jsnum" where
  "deal_amount nts deal =
     (case amount_of nts (field (field deal ''properties'') ''amount'') of
        Inl _ \<Rightarrow> Fin 0 | Inr amount \<Rightarrow> amount)"

definition readable :: "(jsnum \<Rightarrow> string) \<Rightarrow> jsval \<Rightarrow> bool" where
  "readable nts deal =
     (deal \<noteq> JUndefined \<and> deal \<noteq> JNull
      \<and> field deal ''properties'' \<noteq> JUndefined \<and> field deal ''properties'' \<noteq> JNull
      \<and> succeeds (amount_of nts (field (field deal ''properties'') ''amount''))
      \<and> succeeds (stage_of nts (field (field deal ''properties'') ''dealstage'')))"

definition inherited :: "string \<Rightarrow> bool" where
  "inherited k = (k \<in> set object_prototype_members)"

definition record_deal ::
  "string \<Rightarrow> jsnum \<Rightarrow> (string \<times> stage_entry) list \<times> jsnum \<Rightarrow> (string \<times> stage_entry) list \<times> jsnum" where
  "record_deal stage amount acc =
     (if inherited stage then fst acc
      else bump stage amount
             (if map_of (fst acc) stage = None
              then fst acc @ [(stage, \<lparr> stage_count = 0, stage_totalValue = Fin 0 \<rparr>)]
              else fst acc),
      num_add (snd acc) amount)"

abbreviation record_all ::
  "(jsnum \<Rightarrow> string) \<Rightarrow> (string \<times> stage_entry) list \<times> jsnum \<Rightarrow> jsval list
     \<Rightarrow> (string \<times> stage_entry) list \<times> jsnum" where
  "record_all nts acc deals \<equiv>
     foldl (\<lambda>a d. record_deal (deal_stage nts d) (deal_amount nts d) a) acc deals"

definition entry_of :: "(string \<times> stage_entry) list \<Rightarrow> string \<Rightarrow> stage_entry" where
  "entry_of s k =
     (case map_of s k of None \<Rightarrow> \<lparr> stage_count = 0, stage_totalValue = Fin 0 \<rparr> | Some en \<Rightarrow> en)"

text \<open>The running sum of the loop: \<open>+=\<close> from \<open>0\<close>, left to right.\<close>

definition float_sum :: "jsnum list \<Rightarrow> jsnum" where
  "float_sum xs = foldl num_add (Fin 0) xs"

text \<open>The amounts of the deals of one stage, in the order of the deals.\<close>

definition stage_amounts :: "(jsnum \<Rightarrow> string) \<Rightarrow> string \<Rightarrow> jsval list \<Rightarrow> jsnum list" where
  "stage_amounts nts k deals = map (deal_amount nts) (filter (\<lambda>d. deal_stage nts d = k) deals)"

text \<open>The counts and the total values of the stages of a summary, in the order of its keys.\<close>

definition stage_counts :: "pipeline_summary \<Rightarrow> nat list" where
  "stage_counts p = map (stage_count \<circ> snd) (summary p)"

definition stage_totals :: "pipeline_summary \<Rightarrow> jsnum list" where
  "stage_totals p = map (stage_totalValue \<circ> snd) (summary p)"

text \<open>A whole number that is not negative, and its value.\<close>

definition is_whole :: "jsnum \<Rightarrow> bool" where
  "is_whole x = (case x of Fin r \<Rightarrow> 0 \<le> r \<and> of_int \<lfloor>r\<rfloor> = r | _ \<Rightarrow> False)"

definition whole :: "jsnum \<Rightarrow> int" where
  "whole x = (case x of Fin r \<Rightarrow> \<lfloor>r\<rfloor> | _ \<Rightarrow> 0)"

section \<open>Concrete surroundings and inputs\<close>

text \<open>
  A service that answers every request alike, a success and a refusal, a rendering of
  numbers for runs in which no number is rendered, a deal with a stage and an amount, and
  the request for the contact with a given id.
\<close>

definition answering :: "response \<Rightarrow> env" where
  "answering resp =
     \<lparr> HUBSPOT_API_KEY = Some ''key'',
       fetch = (\<lambda>_. Inr resp),
       stringify = (\<lambda>_. ''{}''),
       number_to_string = (\<lambda>_. ''0'') \<rparr>"

definition success_with :: "jsval \<Rightarrow> response" where
  "success_with data =
     \<lparr> ok = True, status = 200, resp_text = Inr ''{}'', resp_json = Inr data \<rparr>"

definition unauthorized :: response where
  "unauthorized =
     \<lparr> ok = False, status = 401, resp_text = Inr ''unauthorized'',
       resp_json = Inl (FetchError ''invalid json response body'') \<rparr>"

definition unused_rendering :: "jsnum \<Rightarrow> string" where
  "unused_rendering n = ''0''"

definition mk_deal :: "string \<Rightarrow> string \<Rightarrow> jsval" where
  "mk_deal stage amount = JObj [(''properties'', JObj [(''dealstage'', JStr stage), (''amount'', JStr amount)])]"

definition unset_deal :: jsval where
  "unset_deal = JObj [(''id'', JStr ''7''), (''properties'', JObj [(''dealstage'', JNull), (''amount'', JNull)])]"

definition contact_by_id_request :: "string \<Rightarrow> http_request" where
  "contact_by_id_request ident =
     \<lparr> url = ''https://api.hubapi.com/crm/v3/objects/contacts/'' @ ident
               @ ''?properties=firstname,lastname,email,phone,company,lifecyclestage'',
       http_method = None,
       headers = [(''Authorization'', ''Bearer key''), (''Content-Type'', ''application/json'')],
       body = None \<rparr>"

section \<open>Properties of the request helper and the dispatcher\<close>

lemma bind_Inl [simp]: "bind (Inl err) f = Inl err"
  by (simp add: bind_def)

lemma bind_Inr [simp]: "bind (Inr x) f = f x"
  by (simp add: bind_def)

lemma bind_eq_Inr: "bind m f = Inr y \<longleftrightarrow> (\<exists>x. m = Inr x \<and> f x = Inr y)"
  by (cases m) simp_all

lemma call_api_Inl [simp]: "call_api e (Inl err) finish = ([], Inl err)"
  by (simp add: call_api_def)

lemma call_api_Inr [simp]:
  "call_api e (Inr (endpoint, opts)) finish =
     ([fst (hubspotRequest e endpoint opts)], bind (snd (hubspotRequest e endpoint opts)) finish)"
  by (cases "hubspotRequest e endpoint opts") (auto simp: call_api_def split: sum.splits)

lemma hubspotRequest_failure:
  assumes "fetch e (fst (hubspotRequest e endpoint opts)) = Inr resp"
    and "\<not> ok resp" and "resp_text resp = Inr t"
  shows "snd (hubspotRequest e endpoint opts) =
           Inl (Error (''HubSpot API error: '' @ show_nat (status resp) @ '' - '' @ t))"
  using assms by (simp add: hubspotRequest_def Let_def)

lemma call_api_failure:
  assumes "req \<in> set (fst (call_api e build finish))"
    and "fetch e req = Inr resp" and "\<not> ok resp" and "resp_text resp = Inr t"
  shows "call_api e build finish =
           ([req], Inl (Error (''HubSpot API error: '' @ show_nat (status resp) @ '' - '' @ t)))"
proof (cases build)
  case (Inl err)
  with assms(1) show ?thesis by simp
next
  case (Inr p)
  obtain endpoint opts where p: "p = (endpoint, opts)" by (cases p)
  from assms(1) Inr p have req: "req = fst (hubspotRequest e endpoint opts)" by simp
  with assms have "snd (hubspotRequest e endpoint opts) =
      Inl (Error (''HubSpot API error: '' @ show_nat (status resp) @ '' - '' @ t))"
    by (simp add: hubspotRequest_failure)
  with Inr p req show ?thesis by simp
qed

lemma get_contact_failure:
  assumes "req \<in> set (fst (get_contact e args))"
    and "fetch e req = Inr resp" and "\<not> ok resp" and "resp_text resp = Inr t"
  shows "get_contact e args =
           ([req], Inl (Error (''HubSpot API error: '' @ show_nat (status resp) @ '' - '' @ t)))"
proof -
  let ?pre = "bind (get_prop args ''contact_id'') (\<lambda>contact_id.
             bind (js_includes ''args.contact_id'' contact_id ''@'') (\<lambda>isEmail.
               Inr (contact_id, isEmail)))"
  show ?thesis
  proof (cases ?pre)
    case (Inl err)
    with assms(1) show ?thesis by (simp add: get_contact_def)
  next
    case (Inr p)
    obtain contact_id isEmail where p: "p = (contact_id, isEmail)" by (cases p)
    show ?thesis
    proof (cases isEmail)
      case True
      with Inr p assms(1) show ?thesis
        unfolding get_contact_def
        by (simp only: sum.case prod.case if_True) (rule call_api_failure [OF _ assms(2-4)])
    next
      case False
      with Inr p assms(1) show ?thesis
        unfolding get_contact_def
        by (simp only: sum.case prod.case if_False) (rule call_api_failure [OF _ assms(2-4)])
    qed
  qed
qed

lemma dispatch_failure:
  assumes "req \<in> set (fst (dispatch e r))"
    and "fetch e req = Inr resp" and "\<not> ok resp" and "resp_text resp = Inr t"
  shows "dispatch e r =
           ([req], Inl (Error (''HubSpot API error: '' @ show_nat (status resp) @ '' - '' @ t)))"
proof -
  note fail = call_api_failure [OF _ assms(2-4)]
  consider (sc) "name r = ''search_contacts''" | (gc) "name r = ''get_contact''"
    | (cc) "name r = ''create_contact''" | (sd) "name r = ''search_deals''"
    | (cd) "name r = ''create_deal''" | (ps) "name r = ''get_pipeline_summary''"
    | (other) "name r \<notin> {''search_contacts'', ''get_contact'', ''create_contact'',
        ''search_deals'', ''create_deal'', ''get_pipeline_summary''}"
    by blast
  then show ?thesis
  proof cases
    case sc
    with assms(1) have "req \<in> set (fst (search_contacts e (arguments r)))"
      by (simp add: dispatch_def)
    then have "search_contacts e (arguments r) =
        ([req], Inl (Error (''HubSpot API error: '' @ show_nat (status resp) @ '' - '' @ t)))"
      unfolding search_contacts_def by (rule fail)
    with sc show ?thesis by (simp add: dispatch_def)
  next
    case gc
    with assms(1) have "req \<in> set (fst (get_contact e (arguments r)))"
      by (simp add: dispatch_def)
    then have "get_contact e (arguments r) =
        ([req], Inl (Error (''HubSpot API error: '' @ show_nat (status resp) @ '' - '' @ t)))"
      by (rule get_contact_failure [OF _ assms(2-4)])
    with gc show ?thesis by (simp add: dispatch_def)
  next
    case cc
    with assms(1) have "req \<in> set (fst (create_contact e (arguments r)))"
      by (simp add: dispatch_def)
    then have "create_contact e (arguments r) =
        ([req], Inl (Error (''HubSpot API error: '' @ show_nat (status resp) @ '' - '' @ t)))"
      unfolding create_contact_def by (rule fail)
    with cc show ?thesis by (simp add: dispatch_def)
  next
    case sd
    with assms(1) have "req \<in> set (fst (search_deals e (arguments r)))"
      by (simp add: dispatch_def)
    then have "search_deals e (arguments r) =
        ([req], Inl (Error (''HubSpot API error: '' @ show_nat (status resp) @ '' - '' @ t)))"
      unfolding search_deals_def by (rule fail)
    with sd show ?thesis by (simp add: dispatch_def)
  next
    case cd
    with assms(1) have "req \<in> set (fst (create_deal e (arguments r)))"
      by (simp add: dispatch_def)
    then have "create_deal e (arguments r) =
        ([req], Inl (Error (''HubSpot API error: '' @ show_nat (status resp) @ '' - '' @ t)))"
      unfolding create_deal_def by (rule fail)
    with cd show ?thesis by (simp add: dispatch_def)
  next
    case ps
    with assms(1) have "req \<in> set (fst (get_pipeline_summary e (arguments r)))"
      by (simp add: dispatch_def)
    then have "get_pipeline_summary e (arguments r) =
        ([req], Inl (Error (''HubSpot API error: '' @ show_nat (status resp) @ '' - '' @ t)))"
      unfolding get_pipeline_summary_def by (rule fail)
    with ps show ?thesis by (simp add: dispatch_def)
  next
    case other
    with assms(1) show ?thesis by (simp add: dispatch_def)
  qed
qed

lemma call_api_success:
  assumes "snd (call_api e build finish) = Inr res"
  shows "\<exists>data. finish data = Inr res"
proof (cases build)
  case (Inl err)
  with assms show ?thesis by simp
next
  case (Inr p)
  obtain endpoint opts where "p = (endpoint, opts)" by (cases p)
  with Inr assms show ?thesis by (auto simp: bind_eq_Inr)
qed

lemma created_text_success:
  "created_text e what data = Inr res \<Longrightarrow> \<exists>t. res = text_result t"
  by (auto simp: created_text_def bind_eq_Inr)

lemma get_contact_success:
  assumes "snd (get_contact e args) = Inr res"
  shows "\<exists>t. res = text_result t"
proof -
  let ?pre = "bind (get_prop args ''contact_id'') (\<lambda>contact_id.
             bind (js_includes ''args.contact_id'' contact_id ''@'') (\<lambda>isEmail.
               Inr (contact_id, isEmail)))"
  show ?thesis
  proof (cases ?pre)
    case (Inl err)
    with assms show ?thesis by (simp add: get_contact_def)
  next
    case (Inr p)
    obtain contact_id isEmail where p: "p = (contact_id, isEmail)" by (cases p)
    show ?thesis
    proof (cases isEmail)
      case True
      with Inr p assms have "\<exists>data. bind (get_prop data ''results'') (\<lambda>results.
                 bind (get_first results) (\<lambda>data.
                   Inr (text_result (JSON_stringify e data)))) = Inr res"
        unfolding get_contact_def
        by (simp only: sum.case prod.case if_True) (rule call_api_success)
      then show ?thesis by (auto simp: bind_eq_Inr)
    next
      case False
      with Inr p assms have "snd (call_api e
              (bind (to_string (number_to_string e) contact_id) (\<lambda>ident.
                 Inr (''/crm/v3/objects/contacts/'' @ ident
                        @ ''?properties=firstname,lastname,email,phone,company,lifecyclestage'',
                      no_options)))
              (\<lambda>data. Inr (text_result (JSON_stringify e data)))) = Inr res"
        unfolding get_contact_def by (simp only: sum.case prod.case if_False)
      from call_api_success [OF this] show ?thesis by auto
    qed
  qed
qed

lemma dispatch_success:
  assumes "snd (dispatch e r) = Inr res"
  shows "\<exists>t. res = text_result t"
proof -
  consider (sc) "name r = ''search_contacts''" | (gc) "name r = ''get_contact''"
    | (cc) "name r = ''create_contact''" | (sd) "name r = ''search_deals''"
    | (cd) "name r = ''create_deal''" | (ps) "name r = ''get_pipeline_summary''"
    | (other) "name r \<notin> {''search_contacts'', ''get_contact'', ''create_contact'',
        ''search_deals'', ''create_deal'', ''get_pipeline_summary''}"
    by blast
  then show ?thesis
  proof cases
    case sc
    with assms have "snd (search_contacts e (arguments r)) = Inr res"
      by (simp add: dispatch_def)
    then have "\<exists>data. bind (get_prop data ''results'') (\<lambda>results.
          Inr (text_result (JSON_stringify e results))) = Inr res"
      unfolding search_contacts_def by (rule call_api_success)
    then show ?thesis by (auto simp: bind_eq_Inr)
  next
    case gc
    with assms have "snd (get_contact e (arguments r)) = Inr res"
      by (simp add: dispatch_def)
    then show ?thesis by (rule get_contact_success)
  next
    case cc
    with assms have "snd (create_contact e (arguments r)) = Inr res"
      by (simp add: dispatch_def)
    then have "\<exists>data. created_text e ''Contact'' data = Inr res"
      unfolding create_contact_def by (rule call_api_success)
    then show ?thesis by (auto dest: created_text_success)
  next
    case sd
    with assms have "snd (search_deals e (arguments r)) = Inr res"
      by (simp add: dispatch_def)
    then have "\<exists>data. bind (get_prop data ''results'') (\<lambda>results.
          Inr (text_result (JSON_stringify e results))) = Inr res"
      unfolding search_deals_def by (rule call_api_success)
    then show ?thesis by (auto simp: bind_eq_Inr)
  next
    case cd
    with assms have "snd (create_deal e (arguments r)) = Inr res"
      by (simp add: dispatch_def)
    then have "\<exists>data. created_text e ''Deal'' data = Inr res"
      unfolding create_deal_def by (rule call_api_success)
    then show ?thesis by (auto dest: created_text_success)
  next
    case ps
    with assms have "snd (get_pipeline_summary e (arguments r)) = Inr res"
      by (simp add: dispatch_def)
    then have "\<exists>data. bind (get_prop data ''results'') (\<lambda>results.
          bind (summarize_results (number_to_string e) results) (\<lambda>p.
            Inr (text_result (Some
              (''Pipeline Summary:'' @ [CHR 0x0A] @ interpolate (JSON_stringify e (summary_value p))))))) = Inr res"
      unfolding get_pipeline_summary_def by (rule call_api_success)
    then show ?thesis by (auto simp: bind_eq_Inr)
  next
    case other
    with assms show ?thesis by (simp add: dispatch_def)
  qed
qed

lemma invoke_eq:
  "invoke e r = (fst (dispatch e r),
                 case snd (dispatch e r) of Inl error \<Rightarrow> error_result error | Inr res \<Rightarrow> res)"
  by (cases "dispatch e r") (auto simp: invoke_def split: sum.splits)

lemma listTools_names:
  "map tool_name listTools =
     [''search_contacts'', ''get_contact'', ''create_contact'', ''search_deals'', ''create_deal'',
      ''get_pipeline_summary'']"
  by (simp add: listTools_def)

text \<open>
  C1.  The handler returns a result for every request: whenever the \<open>try\<close> block fails
  with an error, the result has \<open>isError = true\<close> and one text block, \<open>Error: \<close> followed by the
  error's message, and \<open>isError\<close> is set in no other case.  A name that is none of the six
  tools is such a failure, with the message \<open>Unknown tool: \<close> followed by the name, and
  nothing is sent.
\<close>

theorem invoke_captures_every_failure:
  "(snd (dispatch e r) = Inl error \<longrightarrow>
      snd (invoke e r) =
        \<lparr> content = [\<lparr> block_type = ''text'', block_text = Some (''Error: '' @ message error) \<rparr>],
          isError = Some True \<rparr>)
   \<and> (isError (snd (invoke e r)) = Some True \<longleftrightarrow> (\<exists>err. snd (dispatch e r) = Inl err))
   \<and> (name r \<notin> set (map tool_name listTools) \<longrightarrow>
        dispatch e r = ([], Inl (Error (''Unknown tool: '' @ name r)))
        \<and> invoke e r =
            ([], \<lparr> content = [\<lparr> block_type = ''text'',
                                block_text = Some (''Error: Unknown tool: '' @ name r) \<rparr>],
                   isError = Some True \<rparr>))"
proof (intro conjI impI)
  assume "snd (dispatch e r) = Inl error"
  then show "snd (invoke e r) =
      \<lparr> content = [\<lparr> block_type = ''text'', block_text = Some (''Error: '' @ message error) \<rparr>],
        isError = Some True \<rparr>"
    by (simp add: invoke_eq error_result_def)
next
  show "isError (snd (invoke e r)) = Some True \<longleftrightarrow> (\<exists>err. snd (dispatch e r) = Inl err)"
  proof (cases "snd (dispatch e r)")
    case (Inl err)
    then show ?thesis by (simp add: invoke_eq error_result_def)
  next
    case (Inr res)
    then obtain t where "res = text_result t" using dispatch_success by blast
    with Inr show ?thesis by (simp add: invoke_eq text_result_def)
  qed
next
  assume "name r \<notin> set (map tool_name listTools)"
  then have d: "dispatch e r = ([], Inl (Error (''Unknown tool: '' @ name r)))"
    by (simp add: listTools_names dispatch_def)
  then show "dispatch e r = ([], Inl (Error (''Unknown tool: '' @ name r)))" .
  from d show "invoke e r =
      ([], \<lparr> content = [\<lparr> block_type = ''text'',
                          block_text = Some (''Error: Unknown tool: '' @ name r) \<rparr>],
             isError = Some True \<rparr>)"
    by (simp add: invoke_def error_result_def)
qed

theorem invoke_captures_every_failure_witness:
  "name \<lparr> name = ''unknown_tool'', arguments = JObj [] \<rparr> \<notin> set (map tool_name listTools)
   \<and> invoke (answering unauthorized) \<lparr> name = ''unknown_tool'', arguments = JObj [] \<rparr> =
       ([], \<lparr> content = [\<lparr> block_type = ''text'',
                           block_text = Some ''Error: Unknown tool: unknown_tool'' \<rparr>],
              isError = Some True \<rparr>)
   \<and> snd (dispatch (answering unauthorized) \<lparr> name = ''search_contacts'', arguments = JUndefined \<rparr>) =
       Inl (TypeError ''Cannot read properties of undefined (reading 'limit')'')
   \<and> snd (invoke (answering unauthorized) \<lparr> name = ''search_contacts'', arguments = JUndefined \<rparr>) =
       \<lparr> content = [\<lparr> block_type = ''text'',
                        block_text = Some
                          ''Error: Cannot read properties of undefined (reading 'limit')'' \<rparr>],
         isError = Some True \<rparr>"
proof -
  have h: "name \<lparr> name = ''unknown_tool'', arguments = JObj [] \<rparr> \<notin> set (map tool_name listTools)"
    by (simp add: listTools_names)
  have t: "snd (dispatch (answering unauthorized) \<lparr> name = ''search_contacts'', arguments = JUndefined \<rparr>) =
       Inl (TypeError ''Cannot read properties of undefined (reading 'limit')'')"
    by (simp add: dispatch_def search_contacts_def cannot_read_def)
  from h invoke_captures_every_failure
         [of "answering unauthorized" "\<lparr> name = ''unknown_tool'', arguments = JObj [] \<rparr>"]
  have u: "invoke (answering unauthorized) \<lparr> name = ''unknown_tool'', arguments = JObj [] \<rparr> =
       ([], \<lparr> content = [\<lparr> block_type = ''text'',
                           block_text = Some ''Error: Unknown tool: unknown_tool'' \<rparr>],
              isError = Some True \<rparr>)"
    by simp
  from t invoke_captures_every_failure
         [of "answering unauthorized" "\<lparr> name = ''search_contacts'', arguments = JUndefined \<rparr>"
             "TypeError ''Cannot read properties of undefined (reading 'limit')''"]
  have "snd (invoke (answering unauthorized) \<lparr> name = ''search_contacts'', arguments = JUndefined \<rparr>) =
       \<lparr> content = [\<lparr> block_type = ''text'',
                        block_text = Some
                          ''Error: Cannot read properties of undefined (reading 'limit')'' \<rparr>],
         isError = Some True \<rparr>"
    by simp
  with h u t show ?thesis by simp
qed

text \<open>
  C9.  Whatever the tool name, the arguments and the outcome, the content of the result is
  one block, and its type is \<open>text\<close>.
\<close>

theorem content_is_one_text_block:
  "\<exists>t. content (snd (invoke e r)) = [\<lparr> block_type = ''text'', block_text = t \<rparr>]"
proof (cases "snd (dispatch e r)")
  case (Inl err)
  then show ?thesis by (simp add: invoke_eq error_result_def)
next
  case (Inr res)
  then obtain t where "res = text_result t" using dispatch_success by blast
  with Inr show ?thesis by (simp add: invoke_eq text_result_def)
qed

text \<open>
  C4.  When a request sent by a tool call is answered with a status that is not a success
  (and the body can be read as text), the request helper fails with the error
  \<open>HubSpot API error: <status> - <body>\<close>, the tool call returns \<open>isError = true\<close> with the
  text \<open>Error: \<close> followed by that message, which contains the status code and the body,
  and that request is the only one sent: nothing is retried.
\<close>

theorem non_success_status_is_reported:
  assumes "req \<in> set (fst (invoke e r))"
    and "fetch e req = Inr resp" and "\<not> ok resp" and "resp_text resp = Inr t"
  shows "fst (invoke e r) = [req]
    \<and> snd (invoke e r) =
        \<lparr> content = [\<lparr> block_type = ''text'',
                          block_text = Some (''Error: HubSpot API error: '' @ show_nat (status resp)
                                               @ '' - '' @ t) \<rparr>],
          isError = Some True \<rparr>
    \<and> sublist (show_nat (status resp))
          (''Error: HubSpot API error: '' @ show_nat (status resp) @ '' - '' @ t)
    \<and> sublist t (''Error: HubSpot API error: '' @ show_nat (status resp) @ '' - '' @ t)
    \<and> (\<forall>endpoint opts. fst (hubspotRequest e endpoint opts) = req \<longrightarrow>
          snd (hubspotRequest e endpoint opts) =
            Inl (Error (''HubSpot API error: '' @ show_nat (status resp) @ '' - '' @ t)))"
proof (intro conjI allI impI)
  from assms(1) have "req \<in> set (fst (dispatch e r))" by (simp add: invoke_eq)
  from dispatch_failure [OF this assms(2-4)]
  have d: "dispatch e r =
      ([req], Inl (Error (''HubSpot API error: '' @ show_nat (status resp) @ '' - '' @ t)))" .
  then show "fst (invoke e r) = [req]" by (simp add: invoke_eq)
  from d show "snd (invoke e r) =
      \<lparr> content = [\<lparr> block_type = ''text'',
                        block_text = Some (''Error: HubSpot API error: '' @ show_nat (status resp)
                                             @ '' - '' @ t) \<rparr>],
        isError = Some True \<rparr>"
    by (simp add: invoke_eq error_result_def)
next
  have "sublist (show_nat (status resp))
      (''Error: HubSpot API error: '' @ show_nat (status resp) @ ('' - '' @ t))"
    by (rule sublist_appendI)
  then show "sublist (show_nat (status resp))
      (''Error: HubSpot API error: '' @ show_nat (status resp) @ '' - '' @ t)" .
next
  have "sublist t ((''Error: HubSpot API error: '' @ show_nat (status resp) @ '' - '') @ t @ [])"
    by (rule sublist_appendI)
  then show "sublist t (''Error: HubSpot API error: '' @ show_nat (status resp) @ '' - '' @ t)"
    by simp
next
  fix endpoint opts
  assume "fst (hubspotRequest e endpoint opts) = req"
  with assms(2-4) show "snd (hubspotRequest e endpoint opts) =
      Inl (Error (''HubSpot API error: '' @ show_nat (status resp) @ '' - '' @ t))"
    by (simp add: hubspotRequest_failure)
qed

lemma sublist_single: "sublist [c] s \<longleftrightarrow> c \<in> set s"
  by (auto simp: sublist_def in_set_conv_decomp)

lemma show_nat_401: "show_nat 401 = ''401''"
  by code_simp

lemma get_contact_12345_sent:
  "fst (invoke (answering resp) \<lparr> name = ''get_contact'', arguments = JObj [(''contact_id'', JStr ''12345'')] \<rparr>)
     = [contact_by_id_request ''12345'']"
  by (simp add: invoke_eq dispatch_def get_contact_def lookup_def hubspotRequest_def
        answering_def no_options_def HUBSPOT_API_BASE_def contact_by_id_request_def Let_def
        sublist_single)

theorem non_success_status_is_reported_witness:
  "contact_by_id_request ''12345''
     \<in> set (fst (invoke (answering unauthorized)
                 \<lparr> name = ''get_contact'', arguments = JObj [(''contact_id'', JStr ''12345'')] \<rparr>))
   \<and> fetch (answering unauthorized) (contact_by_id_request ''12345'') = Inr unauthorized
   \<and> \<not> ok unauthorized
   \<and> resp_text unauthorized = Inr ''unauthorized''
   \<and> snd (invoke (answering unauthorized)
            \<lparr> name = ''get_contact'', arguments = JObj [(''contact_id'', JStr ''12345'')] \<rparr>) =
        \<lparr> content = [\<lparr> block_type = ''text'',
                          block_text = Some ''Error: HubSpot API error: 401 - unauthorized'' \<rparr>],
          isError = Some True \<rparr>"
proof -
  have h1: "contact_by_id_request ''12345''
     \<in> set (fst (invoke (answering unauthorized)
                 \<lparr> name = ''get_contact'', arguments = JObj [(''contact_id'', JStr ''12345'')] \<rparr>))"
    by (simp add: get_contact_12345_sent)
  have h2: "fetch (answering unauthorized) (contact_by_id_request ''12345'') = Inr unauthorized"
    by (simp add: answering_def)
  have h3: "\<not> ok unauthorized" by (simp add: unauthorized_def)
  have h4: "resp_text unauthorized = Inr ''unauthorized''" by (simp add: unauthorized_def)
  have st: "status unauthorized = 401" by (simp add: unauthorized_def)
  from non_success_status_is_reported [OF h1 h2 h3 h4] h1 h2 h3 h4
  show ?thesis by (simp add: st show_nat_401)
qed

section \<open>get\_contact\<close>

lemma get_contact_by_id:
  assumes "get_prop args ''contact_id'' = Inr (JStr s)" and "CHR ''@'' \<notin> set s"
  shows "get_contact e args =
     call_api e
       (Inr (''/crm/v3/objects/contacts/'' @ s
               @ ''?properties=firstname,lastname,email,phone,company,lifecyclestage'',
             no_options))
       (\<lambda>data. Inr (text_result (JSON_stringify e data)))"
  using assms by (simp add: get_contact_def sublist_single)

lemma get_contact_by_email:
  assumes "get_prop args ''contact_id'' = Inr (JStr s)" and "CHR ''@'' \<in> set s"
  shows "get_contact e args =
     call_api e
       (Inr (''/crm/v3/objects/contacts/search'',
             post (JObj
               [(''filterGroups'', JArr [filter_on ''email'' ''EQ'' (JStr s)]),
                (''properties'', JArr (map JStr contact_properties)),
                (''limit'', JNum (Fin 1))])))
       (\<lambda>searchData. bind (get_prop searchData ''results'') (\<lambda>results.
          bind (get_first results) (\<lambda>data.
            Inr (text_result (JSON_stringify e data)))))"
  using assms by (simp add: get_contact_def sublist_single)

lemma hubspotRequest_sent:
  "fst (hubspotRequest e endpoint opts) =
     \<lparr> url = HUBSPOT_API_BASE @ endpoint,
       http_method = opt_method opts,
       headers = foldl (\<lambda>hs kv. assign (fst kv) (snd kv) hs)
                   [(''Authorization'', ''Bearer '' @ interpolate (HUBSPOT_API_KEY e)),
                    (''Content-Type'', ''application/json'')]
                   (opt_headers opts),
       body = opt_body opts \<rparr>"
  by (simp add: hubspotRequest_def Let_def interpolate_def)

lemma hubspotRequest_ok:
  assumes "fetch e (fst (hubspotRequest e endpoint opts)) = Inr resp" and "ok resp"
  shows "snd (hubspotRequest e endpoint opts) = resp_json resp"
  using assms by (simp add: hubspotRequest_def Let_def)

text \<open>
  C5, as the code has it.  For a \<open>get_contact\<close> call whose \<open>contact_id\<close> is a string without
  \<open>@\<close>, one request is sent: a \<open>GET\<close> (no method is named, no body) to the fixed base address
  followed by \<open>/crm/v3/objects/contacts/{id}?properties=\<close> and the six property names joined
  by commas.
\<close>

theorem get_contact_by_id_request:
  assumes "get_prop args ''contact_id'' = Inr (JStr s)" and "CHR ''@'' \<notin> set s"
  shows "\<exists>req. fst (invoke e \<lparr> name = ''get_contact'', arguments = args \<rparr>) = [req]
    \<and> url req = HUBSPOT_API_BASE @ ''/crm/v3/objects/contacts/'' @ s @ ''?properties=''
                   @ intercalate '','' contact_properties
    \<and> http_method req = None \<and> effective_method req = ''GET'' \<and> body req = None"
  using assms
  by (simp add: invoke_eq dispatch_def get_contact_by_id hubspotRequest_sent no_options_def
        effective_method_def intercalate_def contact_properties_def)

theorem get_contact_by_id_request_witness:
  "get_prop (JObj [(''contact_id'', JStr ''12345'')]) ''contact_id'' = Inr (JStr ''12345'')
   \<and> CHR ''@'' \<notin> set ''12345''
   \<and> (\<exists>req. fst (invoke (answering unauthorized)
                  \<lparr> name = ''get_contact'', arguments = JObj [(''contact_id'', JStr ''12345'')] \<rparr>) = [req]
        \<and> url req = ''https://api.hubapi.com/crm/v3/objects/contacts/12345?properties=firstname,lastname,email,phone,company,lifecyclestage''
        \<and> effective_method req = ''GET'')"
proof -
  have h1: "get_prop (JObj [(''contact_id'', JStr ''12345'')]) ''contact_id'' = Inr (JStr ''12345'')"
    by (simp add: lookup_def)
  have h2: "CHR ''@'' \<notin> set ''12345''" by simp
  from get_contact_by_id_request [OF h1 h2, of "answering unauthorized"] h1 h2
  show ?thesis
    by (auto simp: HUBSPOT_API_BASE_def intercalate_def contact_properties_def)
qed

text \<open>
  C5, as the claim has it, fails: for the id \<open>12345\<close> the address requested is not the base
  address followed by \<open>/crm/v3/objects/12345?properties=...\<close>; the path goes through
  \<open>contacts/\<close>.
\<close>

theorem get_contact_path_counterexample:
  "map url (fst (invoke (answering unauthorized)
                   \<lparr> name = ''get_contact'', arguments = JObj [(''contact_id'', JStr ''12345'')] \<rparr>))
     \<noteq> [HUBSPOT_API_BASE @ ''/crm/v3/objects/'' @ ''12345'' @ ''?properties=''
          @ intercalate '','' contact_properties]"
  by (simp add: get_contact_12345_sent contact_by_id_request_def HUBSPOT_API_BASE_def
        intercalate_def contact_properties_def)

text \<open>
  C6.  For a \<open>get_contact\<close> call whose \<open>contact_id\<close> is a string: when it contains \<open>@\<close>, the
  one request sent is a search with a single \<open>EQ\<close> filter on \<open>email\<close> for that string, limit 1
  and the six properties, and from a search reply the result is the first element of
  \<open>results\<close>, \<open>undefined\<close> when there is none, rendered as it is and without an error; when
  it contains no \<open>@\<close>, the one request sent fetches the record by id with the same six
  properties, and the reply is rendered as it is.
\<close>

theorem get_contact_email_or_id:
  assumes "get_prop args ''contact_id'' = Inr (JStr s)"
  shows "\<exists>req. fst (invoke e \<lparr> name = ''get_contact'', arguments = args \<rparr>) = [req]
    \<and> (CHR ''@'' \<in> set s \<longrightarrow>
          url req = HUBSPOT_API_BASE @ ''/crm/v3/objects/contacts/search''
        \<and> http_method req = Some ''POST''
        \<and> body req = Some (JObj
             [(''filterGroups'',
               JArr [JObj [(''filters'',
                 JArr [JObj [(''propertyName'', JStr ''email''), (''operator'', JStr ''EQ''),
                             (''value'', JStr s)]])]]),
              (''properties'',
               JArr [JStr ''firstname'', JStr ''lastname'', JStr ''email'', JStr ''phone'',
                     JStr ''company'', JStr ''lifecyclestage'']),
              (''limit'', JNum (Fin 1))])
        \<and> (fetch e req = Inr resp \<and> ok resp \<and> resp_json resp = Inr data
             \<and> get_prop data ''results'' = Inr (JArr rs) \<longrightarrow>
               snd (invoke e \<lparr> name = ''get_contact'', arguments = args \<rparr>) =
                 \<lparr> content = [\<lparr> block_type = ''text'',
                                   block_text = JSON_stringify e
                                     (case rs of [] \<Rightarrow> JUndefined | x # _ \<Rightarrow> x) \<rparr>],
                   isError = None \<rparr>
             \<and> (rs = [] \<longrightarrow>
                   snd (invoke e \<lparr> name = ''get_contact'', arguments = args \<rparr>) =
                     \<lparr> content = [\<lparr> block_type = ''text'', block_text = None \<rparr>],
                       isError = None \<rparr>)))
    \<and> (CHR ''@'' \<notin> set s \<longrightarrow>
          url req = HUBSPOT_API_BASE @ ''/crm/v3/objects/contacts/'' @ s
                      @ ''?properties=firstname,lastname,email,phone,company,lifecyclestage''
        \<and> http_method req = None \<and> body req = None
        \<and> (fetch e req = Inr resp \<and> ok resp \<and> resp_json resp = Inr data \<longrightarrow>
               snd (invoke e \<lparr> name = ''get_contact'', arguments = args \<rparr>) =
                 \<lparr> content = [\<lparr> block_type = ''text'', block_text = JSON_stringify e data \<rparr>],
                   isError = None \<rparr>))"
proof (cases "CHR ''@'' \<in> set s")
  case True
  let ?opts = "post (JObj
               [(''filterGroups'', JArr [filter_on ''email'' ''EQ'' (JStr s)]),
                (''properties'', JArr (map JStr contact_properties)),
                (''limit'', JNum (Fin 1))])"
  let ?req = "fst (hubspotRequest e ''/crm/v3/objects/contacts/search'' ?opts)"
  have sent: "fst (invoke e \<lparr> name = ''get_contact'', arguments = args \<rparr>) = [?req]"
    using assms True by (simp add: invoke_eq dispatch_def get_contact_by_email)
  have shape: "url ?req = HUBSPOT_API_BASE @ ''/crm/v3/objects/contacts/search''"
    "http_method ?req = Some ''POST''"
    "body ?req = Some (JObj
             [(''filterGroups'',
               JArr [JObj [(''filters'',
                 JArr [JObj [(''propertyName'', JStr ''email''), (''operator'', JStr ''EQ''),
                             (''value'', JStr s)]])]]),
              (''properties'',
               JArr [JStr ''firstname'', JStr ''lastname'', JStr ''email'', JStr ''phone'',
                     JStr ''company'', JStr ''lifecyclestage'']),
              (''limit'', JNum (Fin 1))])"
    by (simp_all add: hubspotRequest_sent post_def json_document_def filter_on_def
          contact_properties_def)
  have reply: "snd (invoke e \<lparr> name = ''get_contact'', arguments = args \<rparr>) =
                 \<lparr> content = [\<lparr> block_type = ''text'',
                                   block_text = JSON_stringify e
                                     (case rs of [] \<Rightarrow> JUndefined | x # _ \<Rightarrow> x) \<rparr>],
                   isError = None \<rparr>"
    if "fetch e ?req = Inr resp" "ok resp" "resp_json resp = Inr data"
       "get_prop data ''results'' = Inr (JArr rs)"
    using that assms True hubspotRequest_ok [OF that(1,2)]
    by (simp add: invoke_eq dispatch_def get_contact_by_email text_result_def)
  have none: "JSON_stringify e JUndefined = None"
    by (simp add: JSON_stringify_def json_document_def)
  show ?thesis
    using True sent shape reply none by (intro exI [of _ ?req]) auto
next
  case False
  let ?req = "fst (hubspotRequest e (''/crm/v3/objects/contacts/'' @ s
               @ ''?properties=firstname,lastname,email,phone,company,lifecyclestage'') no_options)"
  have sent: "fst (invoke e \<lparr> name = ''get_contact'', arguments = args \<rparr>) = [?req]"
    using assms False by (simp add: invoke_eq dispatch_def get_contact_by_id)
  have shape: "url ?req = HUBSPOT_API_BASE @ ''/crm/v3/objects/contacts/'' @ s
                      @ ''?properties=firstname,lastname,email,phone,company,lifecyclestage''"
    "http_method ?req = None" "body ?req = None"
    by (simp_all add: hubspotRequest_sent no_options_def)
  have reply: "snd (invoke e \<lparr> name = ''get_contact'', arguments = args \<rparr>) =
                 \<lparr> content = [\<lparr> block_type = ''text'', block_text = JSON_stringify e data \<rparr>],
                   isError = None \<rparr>"
    if "fetch e ?req = Inr resp" "ok resp" "resp_json resp = Inr data"
    using that assms False hubspotRequest_ok [OF that(1,2)]
    by (simp add: invoke_eq dispatch_def get_contact_by_id text_result_def)
  show ?thesis
    using False sent shape reply by (intro exI [of _ ?req]) auto
qed

theorem get_contact_email_or_id_witness:
  "get_prop (JObj [(''contact_id'', JStr ''a@b.com'')]) ''contact_id'' = Inr (JStr ''a@b.com'')
   \<and> map url (fst (invoke (answering (success_with (JObj [(''results'', JArr [])])))
                    \<lparr> name = ''get_contact'', arguments = JObj [(''contact_id'', JStr ''a@b.com'')] \<rparr>))
       = [''https://api.hubapi.com/crm/v3/objects/contacts/search'']
   \<and> snd (invoke (answering (success_with (JObj [(''results'', JArr [])])))
            \<lparr> name = ''get_contact'', arguments = JObj [(''contact_id'', JStr ''a@b.com'')] \<rparr>)
       = \<lparr> content = [\<lparr> block_type = ''text'', block_text = None \<rparr>], isError = None \<rparr>"
proof -
  let ?data = "JObj [(''results'', JArr [])]"
  let ?e = "answering (success_with ?data)"
  let ?r = "\<lparr> name = ''get_contact'', arguments = JObj [(''contact_id'', JStr ''a@b.com'')] \<rparr>"
  have h1: "get_prop (JObj [(''contact_id'', JStr ''a@b.com'')]) ''contact_id'' = Inr (JStr ''a@b.com'')"
    by (simp add: lookup_def)
  have at: "CHR ''@'' \<in> set ''a@b.com''" by simp
  from get_contact_email_or_id [OF h1, of ?e "success_with ?data" ?data "[]"] at
  obtain req where sent: "fst (invoke ?e ?r) = [req]"
    and u: "url req = HUBSPOT_API_BASE @ ''/crm/v3/objects/contacts/search''"
    and res: "fetch ?e req = Inr (success_with ?data) \<and> ok (success_with ?data)
        \<and> resp_json (success_with ?data) = Inr ?data
        \<and> get_prop ?data ''results'' = Inr (JArr []) \<longrightarrow>
          snd (invoke ?e ?r) = \<lparr> content = [\<lparr> block_type = ''text'', block_text = None \<rparr>],
                                 isError = None \<rparr>"
    by blast
  have "fetch ?e req = Inr (success_with ?data)" by (simp add: answering_def)
  moreover have "ok (success_with ?data)" "resp_json (success_with ?data) = Inr ?data"
    by (simp_all add: success_with_def)
  moreover have "get_prop ?data ''results'' = Inr (JArr [])" by (simp add: lookup_def)
  ultimately have "snd (invoke ?e ?r) =
      \<lparr> content = [\<lparr> block_type = ''text'', block_text = None \<rparr>], isError = None \<rparr>"
    using res by blast
  with h1 sent u show ?thesis by (simp add: HUBSPOT_API_BASE_def)
qed

section \<open>create\_deal\<close>

lemma js_or_defined: "b \<noteq> JUndefined \<Longrightarrow> js_or a b \<noteq> JUndefined"
  by (cases a) (auto simp: js_or_def)

lemma js_or_absent [simp]: "js_or JUndefined b = b"
  by (simp add: js_or_def)

lemma has_type_defined: "has_type t v \<Longrightarrow> v \<noteq> JUndefined"
  by (cases v) simp_all

text \<open>
  C7.  A \<open>create_deal\<close> call on an argument object sends one \<open>POST\<close> to
  \<open>/crm/v3/objects/deals\<close> whose body is \<open>{properties: ...}\<close>.  The fields of that property
  set are among \<open>dealname\<close>, \<open>amount\<close>, \<open>dealstage\<close> and \<open>pipeline\<close>, with the values of the
  arguments, in this order; \<open>pipeline\<close> is always there and is \<open>"default"\<close> when the argument
  is not supplied; no other argument field is sent.  When the arguments meet the tool's
  schema (the three required fields are supplied), the fields are exactly these four.
\<close>

theorem create_deal_properties_sent:
  assumes "args = JObj kvs"
  shows "\<exists>req props.
      fst (invoke e \<lparr> name = ''create_deal'', arguments = args \<rparr>) = [req]
    \<and> url req = HUBSPOT_API_BASE @ ''/crm/v3/objects/deals''
    \<and> http_method req = Some ''POST''
    \<and> body req = Some (JObj [(''properties'', JObj props)])
    \<and> map fst props =
         filter (\<lambda>k. k = ''pipeline'' \<or> lookup kvs k \<noteq> JUndefined)
           [''dealname'', ''amount'', ''dealstage'', ''pipeline'']
    \<and> (\<forall>k v. map_of props k = Some v \<and> k \<noteq> ''pipeline'' \<longrightarrow> v = to_json (lookup kvs k))
    \<and> map_of props ''pipeline'' = Some (to_json (js_or (lookup kvs ''pipeline'') (JStr ''default'')))
    \<and> (map_of kvs ''pipeline'' = None \<longrightarrow> map_of props ''pipeline'' = Some (JStr ''default''))
    \<and> ((\<exists>d \<in> set listTools. tool_name d = ''create_deal'' \<and> valid_args d args) \<longrightarrow>
          map fst props = [''dealname'', ''amount'', ''dealstage'', ''pipeline''])"
proof -
  let ?p = "js_or (lookup kvs ''pipeline'') (JStr ''default'')"
  let ?all = "[(''dealname'', lookup kvs ''dealname''), (''amount'', lookup kvs ''amount''),
               (''dealstage'', lookup kvs ''dealstage''), (''pipeline'', ?p)]"
  let ?props = "map (\<lambda>kv. (fst kv, to_json (snd kv))) (filter (\<lambda>kv. snd kv \<noteq> JUndefined) ?all)"
  let ?req = "fst (hubspotRequest e ''/crm/v3/objects/deals''
                     (post (JObj [(''properties'', JObj ?all)])))"
  have p: "?p \<noteq> JUndefined" by (rule js_or_defined) simp
  have dp: "deal_properties args = Inr (JObj ?all)"
    using assms by (simp add: deal_properties_def)
  have sent: "fst (invoke e \<lparr> name = ''create_deal'', arguments = args \<rparr>) = [?req]"
    by (simp add: invoke_eq dispatch_def create_deal_def dp)
  have shape: "url ?req = HUBSPOT_API_BASE @ ''/crm/v3/objects/deals''"
    "http_method ?req = Some ''POST''"
    "body ?req = Some (JObj [(''properties'', JObj ?props)])"
    by (simp_all add: hubspotRequest_sent post_def json_document_def)
  have keys: "map fst ?props =
         filter (\<lambda>k. k = ''pipeline'' \<or> lookup kvs k \<noteq> JUndefined)
           [''dealname'', ''amount'', ''dealstage'', ''pipeline'']"
    using p by simp
  have vals: "v = to_json (lookup kvs k)" if "map_of ?props k = Some v" "k \<noteq> ''pipeline''" for k v
    using that p by (auto split: if_splits)
  have pipe: "map_of ?props ''pipeline'' = Some (to_json ?p)"
    using p by simp
  have dflt: "map_of ?props ''pipeline'' = Some (JStr ''default'')" if "map_of kvs ''pipeline'' = None"
    using that by (simp add: lookup_def)
  have valid: "map fst ?props = [''dealname'', ''amount'', ''dealstage'', ''pipeline'']"
    if "\<exists>d \<in> set listTools. tool_name d = ''create_deal'' \<and> valid_args d args"
  proof -
    from that assms have "lookup kvs ''dealname'' \<noteq> JUndefined"
      "lookup kvs ''amount'' \<noteq> JUndefined" "lookup kvs ''dealstage'' \<noteq> JUndefined"
      by (auto simp: listTools_def valid_args_def lookup_def
            split: option.splits dest: has_type_defined)
    with keys show ?thesis by simp
  qed
  show ?thesis
    apply (rule exI [of _ ?req])
    apply (rule exI [of _ ?props])
    apply (intro conjI allI impI)
    subgoal by (rule sent)
    subgoal by (rule shape(1))
    subgoal by (rule shape(2))
    subgoal by (rule shape(3))
    subgoal by (rule keys)
    subgoal for k v using vals [of k v] by blast
    subgoal by (rule pipe)
    subgoal by (rule dflt)
    subgoal by (rule valid)
    done
qed

theorem create_deal_properties_sent_witness:
  "(\<exists>d \<in> set listTools. tool_name d = ''create_deal''
       \<and> valid_args d (JObj [(''dealname'', JStr ''Big''), (''amount'', JNum (Fin 100)),
                              (''dealstage'', JStr ''won''), (''foo'', JStr ''bar'')]))
   \<and> (\<exists>req props.
        fst (invoke (answering unauthorized)
               \<lparr> name = ''create_deal'',
                 arguments = JObj [(''dealname'', JStr ''Big''), (''amount'', JNum (Fin 100)),
                                   (''dealstage'', JStr ''won''), (''foo'', JStr ''bar'')] \<rparr>) = [req]
      \<and> body req = Some (JObj [(''properties'', JObj props)])
      \<and> map fst props = [''dealname'', ''amount'', ''dealstage'', ''pipeline'']
      \<and> map_of props ''pipeline'' = Some (JStr ''default'')
      \<and> ''foo'' \<notin> set (map fst props))"
proof -
  let ?kvs = "[(''dealname'', JStr ''Big''), (''amount'', JNum (Fin 100)),
               (''dealstage'', JStr ''won''), (''foo'', JStr ''bar'')]"
  have h: "\<exists>d \<in> set listTools. tool_name d = ''create_deal'' \<and> valid_args d (JObj ?kvs)"
    by (simp add: listTools_def valid_args_def)
  have n: "map_of ?kvs ''pipeline'' = None" by simp
  from create_deal_properties_sent [OF refl, of "answering unauthorized" ?kvs] n
  have "\<exists>req props.
        fst (invoke (answering unauthorized)
               \<lparr> name = ''create_deal'', arguments = JObj ?kvs \<rparr>) = [req]
      \<and> body req = Some (JObj [(''properties'', JObj props)])
      \<and> map fst props = [''dealname'', ''amount'', ''dealstage'', ''pipeline'']
      \<and> map_of props ''pipeline'' = Some (JStr ''default'')
      \<and> ''foo'' \<notin> set (map fst props)"
    apply (elim exE conjE)
    subgoal for req props
      apply (rule exI [of _ req])
      apply (rule exI [of _ props])
      apply (simp add: lookup_def)
      done
    done
  with h show ?thesis by (rule conjI)
qed

section \<open>The aggregation\<close>

lemma get_prop_field:
  "get_prop v k = (if v = JUndefined \<or> v = JNull then Inl (cannot_read v k) else Inr (field v k))"
  by (cases v) (simp_all add: field_def)

lemma succeeds_Inr: "succeeds m \<longleftrightarrow> (\<exists>x. m = Inr x)"
  by (cases m) (simp_all add: succeeds_def)

lemma tally_readable:
  "readable nts deal \<Longrightarrow>
     tally nts acc deal = Inr (record_deal (deal_stage nts deal) (deal_amount nts deal) acc)"
  by (auto simp: tally_def get_prop_field readable_def record_deal_def deal_stage_def
        deal_amount_def inherited_def Let_def succeeds_Inr)

lemma tally_Inr_readable:
  "tally nts acc deal = Inr acc' \<Longrightarrow> readable nts deal"
  by (auto simp: tally_def get_prop_field readable_def bind_eq_Inr succeeds_Inr
      split: if_splits)

lemma tally_unreadable: "\<not> readable nts deal \<Longrightarrow> \<exists>err. tally nts acc deal = Inl err"
  by (cases "tally nts acc deal") (auto dest: tally_Inr_readable)

lemma forEach_tally_readable:
  "list_all (readable nts) deals \<Longrightarrow>
     forEach_tally nts acc deals =
       Inr (foldl (\<lambda>a d. record_deal (deal_stage nts d) (deal_amount nts d) a) acc deals)"
  by (induction deals arbitrary: acc) (simp_all add: tally_readable)

lemma forEach_tally_Inr_readable:
  "forEach_tally nts acc deals = Inr acc' \<Longrightarrow> list_all (readable nts) deals"
  by (induction deals arbitrary: acc) (auto split: sum.splits dest: tally_Inr_readable)

lemma aggregate_readable:
  "list_all (readable nts) deals \<Longrightarrow>
     aggregate nts deals =
       Inr \<lparr> summary = fst (record_all nts ([], Fin 0) deals), totalDeals = length deals,
             totalValue = snd (record_all nts ([], Fin 0) deals) \<rparr>"
  by (simp add: aggregate_def forEach_tally_readable)

lemma aggregate_Inr_readable: "aggregate nts deals = Inr p \<Longrightarrow> list_all (readable nts) deals"
  by (auto simp: aggregate_def bind_eq_Inr dest: forEach_tally_Inr_readable)

lemma aggregate_unreadable:
  "\<not> list_all (readable nts) deals \<Longrightarrow> \<exists>err. aggregate nts deals = Inl err"
  by (cases "aggregate nts deals") (auto dest: aggregate_Inr_readable)

subsection \<open>The grand total\<close>

lemma snd_record_deal [simp]: "snd (record_deal stage amount acc) = num_add (snd acc) amount"
  by (simp add: record_deal_def)

lemma snd_record_all:
  "snd (record_all nts acc deals) = foldl num_add (snd acc) (map (deal_amount nts) deals)"
  by (induction deals arbitrary: acc) simp_all

subsection \<open>The entries\<close>

lemma map_of_bump:
  "map_of (bump stage amount s) k =
     (if k = stage
      then map_option (\<lambda>en. \<lparr> stage_count = stage_count en + 1,
                               stage_totalValue = num_add (stage_totalValue en) amount \<rparr>) (map_of s k)
      else map_of s k)"
  by (induction s) (auto simp: bump_def)

lemma map_of_record_deal:
  "map_of (fst (record_deal stage amount acc)) k =
     (if k = stage \<and> \<not> inherited stage
      then Some \<lparr> stage_count = stage_count (entry_of (fst acc) k) + 1,
                  stage_totalValue = num_add (stage_totalValue (entry_of (fst acc) k)) amount \<rparr>
      else map_of (fst acc) k)"
  by (auto simp: record_deal_def map_of_bump entry_of_def map_add_def split: option.splits)

lemma filter_absent: "k \<notin> f ` set xs \<Longrightarrow> filter (\<lambda>x. f x = k) xs = []"
  by (auto simp: filter_empty_conv)

lemma map_of_record_all:
  "map_of (fst (record_all nts acc deals)) k =
     (if inherited k \<or> k \<notin> deal_stage nts ` set deals then map_of (fst acc) k
      else Some \<lparr> stage_count = stage_count (entry_of (fst acc) k)
                                  + length (stage_amounts nts k deals),
                  stage_totalValue = foldl num_add (stage_totalValue (entry_of (fst acc) k))
                                       (stage_amounts nts k deals) \<rparr>)"
proof (induction deals arbitrary: acc)
  case Nil
  then show ?case by simp
next
  case (Cons d deals)
  let ?acc = "record_deal (deal_stage nts d) (deal_amount nts d) acc"
  have step: "entry_of (fst ?acc) k =
      (if k = deal_stage nts d \<and> \<not> inherited k
       then \<lparr> stage_count = stage_count (entry_of (fst acc) k) + 1,
              stage_totalValue = num_add (stage_totalValue (entry_of (fst acc) k)) (deal_amount nts d) \<rparr>
       else entry_of (fst acc) k)"
    by (auto simp: entry_of_def map_of_record_deal)
  show ?case
    using Cons.IH [of ?acc]
    by (auto simp: step map_of_record_deal stage_amounts_def filter_absent)
qed

lemma aggregate_Inr:
  assumes "aggregate nts deals = Inr p"
  shows "totalDeals p = length deals"
    and "totalValue p = float_sum (map (deal_amount nts) deals)"
    and "map_of (summary p) k =
           (if inherited k \<or> k \<notin> deal_stage nts ` set deals then None
            else Some \<lparr> stage_count = length (stage_amounts nts k deals),
                        stage_totalValue = float_sum (stage_amounts nts k deals) \<rparr>)"
proof -
  from assms have r: "list_all (readable nts) deals" by (rule aggregate_Inr_readable)
  from assms aggregate_readable [OF r]
  have p: "p = \<lparr> summary = fst (record_all nts ([], Fin 0) deals), totalDeals = length deals,
                  totalValue = snd (record_all nts ([], Fin 0) deals) \<rparr>"
    by simp
  show "totalDeals p = length deals" by (simp add: p)
  show "totalValue p = float_sum (map (deal_amount nts) deals)"
    by (simp add: p snd_record_all float_sum_def)
  show "map_of (summary p) k =
           (if inherited k \<or> k \<notin> deal_stage nts ` set deals then None
            else Some \<lparr> stage_count = length (stage_amounts nts k deals),
                        stage_totalValue = float_sum (stage_amounts nts k deals) \<rparr>)"
    by (simp add: p map_of_record_all entry_of_def float_sum_def)
qed

lemma readable_permuted:
  "mset deals' = mset deals \<Longrightarrow> list_all (readable nts) deals \<Longrightarrow> list_all (readable nts) deals'"
  by (auto simp: list_all_iff dest: mset_eq_setD)

lemma stage_amounts_permuted:
  "mset deals' = mset deals \<Longrightarrow> mset (stage_amounts nts k deals') = mset (stage_amounts nts k deals)"
  by (simp add: stage_amounts_def)

section \<open>Worked inputs\<close>

lemma example_orders:
  "aggregate nts [mk_deal ''won'' ''100'', mk_deal ''won'' ''50'', mk_deal '''' ''bad''] =
     Inr \<lparr> summary = [(''won'', \<lparr> stage_count = 2, stage_totalValue = Fin 150 \<rparr>),
                       (''Unknown'', \<lparr> stage_count = 1, stage_totalValue = Fin 0 \<rparr>)],
           totalDeals = 3, totalValue = Fin 150 \<rparr>"
  "aggregate nts [mk_deal ''won'' ''100'', mk_deal '''' ''bad'', mk_deal ''won'' ''50''] =
     Inr \<lparr> summary = [(''won'', \<lparr> stage_count = 2, stage_totalValue = Fin 150 \<rparr>),
                       (''Unknown'', \<lparr> stage_count = 1, stage_totalValue = Fin 0 \<rparr>)],
           totalDeals = 3, totalValue = Fin 150 \<rparr>"
  "aggregate nts [mk_deal ''won'' ''50'', mk_deal ''won'' ''100'', mk_deal '''' ''bad''] =
     Inr \<lparr> summary = [(''won'', \<lparr> stage_count = 2, stage_totalValue = Fin 150 \<rparr>),
                       (''Unknown'', \<lparr> stage_count = 1, stage_totalValue = Fin 0 \<rparr>)],
           totalDeals = 3, totalValue = Fin 150 \<rparr>"
  "aggregate nts [mk_deal ''won'' ''50'', mk_deal '''' ''bad'', mk_deal ''won'' ''100''] =
     Inr \<lparr> summary = [(''won'', \<lparr> stage_count = 2, stage_totalValue = Fin 150 \<rparr>),
                       (''Unknown'', \<lparr> stage_count = 1, stage_totalValue = Fin 0 \<rparr>)],
           totalDeals = 3, totalValue = Fin 150 \<rparr>"
  "aggregate nts [mk_deal '''' ''bad'', mk_deal ''won'' ''100'', mk_deal ''won'' ''50''] =
     Inr \<lparr> summary = [(''Unknown'', \<lparr> stage_count = 1, stage_totalValue = Fin 0 \<rparr>),
                       (''won'', \<lparr> stage_count = 2, stage_totalValue = Fin 150 \<rparr>)],
           totalDeals = 3, totalValue = Fin 150 \<rparr>"
  "aggregate nts [mk_deal '''' ''bad'', mk_deal ''won'' ''50'', mk_deal ''won'' ''100''] =
     Inr \<lparr> summary = [(''Unknown'', \<lparr> stage_count = 1, stage_totalValue = Fin 0 \<rparr>),
                       (''won'', \<lparr> stage_count = 2, stage_totalValue = Fin 150 \<rparr>)],
           totalDeals = 3, totalValue = Fin 150 \<rparr>"
  by code_simp+

text \<open>
  A value that cannot be converted to a string ends the call with an error: a deal whose
  stage is an object with a \<open>toString\<close> of its own, and a created record with such an id.
\<close>

lemma unconvertible_values_throw:
  "aggregate unused_rendering
     [JObj [(''properties'',
             JObj [(''dealstage'', JObj [(''toString'', JNum (Fin 1))]), (''amount'', JStr ''5'')])]]
     = Inl (TypeError ''Cannot convert object to primitive value'')"
  "created_text (answering unauthorized) ''Contact''
     (JObj [(''id'', JObj [(''toString'', JNum (Fin 5))])])
     = Inl (TypeError ''Cannot convert object to primitive value'')"
  by code_simp+

lemma perm3:
  assumes "mset xs = mset [a, b, c]"
  shows "xs \<in> {[a, b, c], [a, c, b], [b, a, c], [b, c, a], [c, a, b], [c, b, a]}"
proof -
  from assms have "length xs = 3" by (metis length_Cons list.size(3) numeral_3_eq_3 size_mset)
  then obtain x y z where xs: "xs = [x, y, z]"
    by (auto simp: numeral_3_eq_3 length_Suc_conv)
  from assms show ?thesis
    unfolding xs by (auto simp: add_eq_conv_ex)
qed

lemma stage_of_cases:
  "stage_of nts v = (if truthy v then to_string nts v else Inr ''Unknown'')"
  by (simp add: stage_of_def js_or_def)

lemma amount_of_cases:
  "amount_of nts a =
     bind (to_string nts a) (\<lambda>t. Inr (if parseFloat_string t \<in> {NaN, NegZero, Fin 0} then Fin 0
                                       else parseFloat_string t))"
  by (cases "to_string nts a") (auto simp: amount_of_def parseFloat_def)

lemma not_a_number: "parseFloat_string ''undefined'' = NaN" "parseFloat_string ''null'' = NaN"
  by code_simp+

lemma scalar_converts: "scalar v \<Longrightarrow> \<exists>t. to_string nts v = Inr t"
  by (cases v) (simp_all add: scalar_def)

lemma scalar_readable:
  assumes "field d ''properties'' = JObj ps"
    and "scalar (lookup ps ''dealstage'')" and "scalar (lookup ps ''amount'')"
  shows "readable nts d"
proof -
  from assms(1) have d: "d \<noteq> JUndefined" "d \<noteq> JNull"
    by (auto simp: field_def)
  from scalar_converts [OF assms(3), of nts] obtain t
    where "to_string nts (lookup ps ''amount'') = Inr t" ..
  then have a: "succeeds (amount_of nts (lookup ps ''amount''))"
    by (simp add: amount_of_cases succeeds_Inr)
  have "scalar (js_or (lookup ps ''dealstage'') (JStr ''Unknown''))"
    using assms(2) by (simp add: js_or_def scalar_def)
  from scalar_converts [OF this, of nts]
  have "succeeds (stage_of nts (lookup ps ''dealstage''))"
    by (simp add: stage_of_def succeeds_Inr)
  with d a assms(1) show ?thesis by (simp add: readable_def field_def)
qed

text \<open>
  C2.  The three deals \<open>{won, "100"}\<close>, \<open>{won, "50"}\<close>, \<open>{"", "bad"}\<close>, in any order, are
  summarised as \<open>won \<mapsto> (2, 150)\<close> and \<open>Unknown \<mapsto> (1, 0)\<close> and nothing else, with 3 deals
  and a total of 150.  In general, for any list of deals: the aggregation succeeds exactly
  when every deal is readable, it then reports the number of deals and the running sum of
  their amounts, and under each stage that is no inherited member name the number and the
  running sum of the amounts of the deals of that stage.  The stage of a deal is \<open>Unknown\<close>
  when \<open>dealstage\<close> is absent, \<open>null\<close>, the empty string or otherwise falsy, and the
  string conversion of \<open>dealstage\<close> otherwise (the string itself for a string).  The amount
  of a deal is what \<open>parseFloat\<close> reads from the string conversion of \<open>amount\<close>, and 0 when
  that is \<open>NaN\<close> (as for an absent or \<open>null\<close> amount and a string that is not numeric) or
  zero.  The loop body succeeds on a readable deal, recording it under its stage with its
  amount, and throws on any other; a deal with a \<open>properties\<close> object is readable when its
  \<open>dealstage\<close> and \<open>amount\<close> are absent or no objects or arrays.
\<close>

theorem pipeline_summary_of_three_deals:
  assumes "mset deals = mset [mk_deal ''won'' ''100'', mk_deal ''won'' ''50'', mk_deal '''' ''bad'']"
  shows "(\<exists>p. aggregate nts deals = Inr p
      \<and> map_of (summary p) ''won'' = Some \<lparr> stage_count = 2, stage_totalValue = Fin 150 \<rparr>
      \<and> map_of (summary p) ''Unknown'' = Some \<lparr> stage_count = 1, stage_totalValue = Fin 0 \<rparr>
      \<and> dom (map_of (summary p)) = {''won'', ''Unknown''}
      \<and> totalDeals p = 3 \<and> totalValue p = Fin 150)
    \<and> (aggregate nts ds = Inr q \<longrightarrow>
          list_all (readable nts) ds
        \<and> totalDeals q = length ds
        \<and> totalValue q = float_sum (map (deal_amount nts) ds)
        \<and> (\<not> inherited k \<longrightarrow>
              map_of (summary q) k =
                (if k \<in> deal_stage nts ` set ds
                 then Some \<lparr> stage_count = length (stage_amounts nts k ds),
                             stage_totalValue = float_sum (stage_amounts nts k ds) \<rparr>
                 else None)))
    \<and> (list_all (readable nts) ds \<longrightarrow> (\<exists>q. aggregate nts ds = Inr q))
    \<and> (\<not> list_all (readable nts) ds \<longrightarrow> (\<exists>err. aggregate nts ds = Inl err))
    \<and> (readable nts d \<longrightarrow>
          tally nts acc d = Inr (record_deal (deal_stage nts d) (deal_amount nts d) acc))
    \<and> (\<not> readable nts d \<longrightarrow> (\<exists>err. tally nts acc d = Inl err))
    \<and> (field d ''properties'' = JObj ps \<and> scalar (lookup ps ''dealstage'')
         \<and> scalar (lookup ps ''amount'') \<longrightarrow> readable nts d)
    \<and> (readable nts d \<and> \<not> truthy (field (field d ''properties'') ''dealstage'') \<longrightarrow>
          deal_stage nts d = ''Unknown'')
    \<and> (readable nts d \<and> truthy (field (field d ''properties'') ''dealstage'') \<longrightarrow>
          to_string nts (field (field d ''properties'') ''dealstage'') = Inr (deal_stage nts d))
    \<and> (readable nts d \<and> field (field d ''properties'') ''dealstage'' = JStr s \<and> s \<noteq> [] \<longrightarrow>
          deal_stage nts d = s)
    \<and> (readable nts d \<longrightarrow>
          (\<exists>t. to_string nts (field (field d ''properties'') ''amount'') = Inr t
             \<and> deal_amount nts d =
                 (if parseFloat_string t \<in> {NaN, NegZero, Fin 0} then Fin 0
                  else parseFloat_string t)))
    \<and> (readable nts d \<and> (field (field d ''properties'') ''amount'' = JUndefined
                          \<or> field (field d ''properties'') ''amount'' = JNull) \<longrightarrow>
          deal_amount nts d = Fin 0)
    \<and> (readable nts d \<and> field (field d ''properties'') ''amount'' = JStr a \<longrightarrow>
          deal_amount nts d =
            (if parseFloat_string a \<in> {NaN, NegZero, Fin 0} then Fin 0 else parseFloat_string a))"
proof (intro conjI impI)
  from perm3 [OF assms]
  consider "deals = [mk_deal ''won'' ''100'', mk_deal ''won'' ''50'', mk_deal '''' ''bad'']"
    | "deals = [mk_deal ''won'' ''100'', mk_deal '''' ''bad'', mk_deal ''won'' ''50'']"
    | "deals = [mk_deal ''won'' ''50'', mk_deal ''won'' ''100'', mk_deal '''' ''bad'']"
    | "deals = [mk_deal ''won'' ''50'', mk_deal '''' ''bad'', mk_deal ''won'' ''100'']"
    | "deals = [mk_deal '''' ''bad'', mk_deal ''won'' ''100'', mk_deal ''won'' ''50'']"
    | "deals = [mk_deal '''' ''bad'', mk_deal ''won'' ''50'', mk_deal ''won'' ''100'']"
    by blast
  then show "\<exists>p. aggregate nts deals = Inr p
      \<and> map_of (summary p) ''won'' = Some \<lparr> stage_count = 2, stage_totalValue = Fin 150 \<rparr>
      \<and> map_of (summary p) ''Unknown'' = Some \<lparr> stage_count = 1, stage_totalValue = Fin 0 \<rparr>
      \<and> dom (map_of (summary p)) = {''won'', ''Unknown''}
      \<and> totalDeals p = 3 \<and> totalValue p = Fin 150"
    by cases (auto simp: example_orders)
next
  assume q: "aggregate nts ds = Inr q"
  show "list_all (readable nts) ds" by (rule aggregate_Inr_readable [OF q])
  show "totalDeals q = length ds" by (rule aggregate_Inr(1) [OF q])
  show "totalValue q = float_sum (map (deal_amount nts) ds)" by (rule aggregate_Inr(2) [OF q])
  assume "\<not> inherited k"
  then show "map_of (summary q) k =
                (if k \<in> deal_stage nts ` set ds
                 then Some \<lparr> stage_count = length (stage_amounts nts k ds),
                             stage_totalValue = float_sum (stage_amounts nts k ds) \<rparr>
                 else None)"
    by (simp add: aggregate_Inr(3) [OF q])
next
  assume "list_all (readable nts) ds"
  then show "\<exists>q. aggregate nts ds = Inr q" by (simp add: aggregate_readable)
next
  assume "\<not> list_all (readable nts) ds"
  then show "\<exists>err. aggregate nts ds = Inl err" by (rule aggregate_unreadable)
next
  assume "readable nts d"
  then show "tally nts acc d = Inr (record_deal (deal_stage nts d) (deal_amount nts d) acc)"
    by (rule tally_readable)
next
  assume "\<not> readable nts d"
  then show "\<exists>err. tally nts acc d = Inl err" by (rule tally_unreadable)
next
  assume "field d ''properties'' = JObj ps \<and> scalar (lookup ps ''dealstage'')
         \<and> scalar (lookup ps ''amount'')"
  then show "readable nts d" by (blast intro: scalar_readable)
next
  assume "readable nts d \<and> \<not> truthy (field (field d ''properties'') ''dealstage'')"
  then show "deal_stage nts d = ''Unknown''"
    by (simp add: deal_stage_def stage_of_cases)
next
  assume "readable nts d \<and> truthy (field (field d ''properties'') ''dealstage'')"
  then show "to_string nts (field (field d ''properties'') ''dealstage'') = Inr (deal_stage nts d)"
    by (auto simp: readable_def deal_stage_def stage_of_cases succeeds_Inr)
next
  assume "readable nts d \<and> field (field d ''properties'') ''dealstage'' = JStr s \<and> s \<noteq> []"
  then show "deal_stage nts d = s"
    by (simp add: deal_stage_def stage_of_cases)
next
  assume "readable nts d"
  then obtain x where x: "amount_of nts (field (field d ''properties'') ''amount'') = Inr x"
    by (auto simp: readable_def succeeds_Inr)
  then obtain t where t: "to_string nts (field (field d ''properties'') ''amount'') = Inr t"
    by (cases "to_string nts (field (field d ''properties'') ''amount'')")
       (simp_all add: amount_of_cases)
  with x have "deal_amount nts d =
      (if parseFloat_string t \<in> {NaN, NegZero, Fin 0} then Fin 0 else parseFloat_string t)"
    by (simp add: deal_amount_def amount_of_cases)
  with t show "\<exists>t. to_string nts (field (field d ''properties'') ''amount'') = Inr t
             \<and> deal_amount nts d =
                 (if parseFloat_string t \<in> {NaN, NegZero, Fin 0} then Fin 0
                  else parseFloat_string t)"
    by blast
next
  assume "readable nts d \<and> (field (field d ''properties'') ''amount'' = JUndefined
                          \<or> field (field d ''properties'') ''amount'' = JNull)"
  then show "deal_amount nts d = Fin 0"
    by (auto simp: deal_amount_def amount_of_cases not_a_number)
next
  assume "readable nts d \<and> field (field d ''properties'') ''amount'' = JStr a"
  then have "deal_amount nts d =
      (case amount_of nts (JStr a) of Inl _ \<Rightarrow> Fin 0 | Inr amount \<Rightarrow> amount)"
    by (simp add: deal_amount_def)
  then show "deal_amount nts d =
            (if parseFloat_string a \<in> {NaN, NegZero, Fin 0} then Fin 0 else parseFloat_string a)"
    by (simp only: amount_of_cases to_string.simps bind_Inr sum.case)
qed

lemma unset_deal_readable: "readable unused_rendering unset_deal"
  by code_simp

lemma unset_deal_fields:
  "\<not> truthy (field (field unset_deal ''properties'') ''dealstage'')"
  "field (field unset_deal ''properties'') ''amount'' = JNull"
  by code_simp+

lemma unset_deal_recorded:
  "record_deal ''Unknown'' (Fin 0) ([], Fin 0)
     = ([(''Unknown'', \<lparr> stage_count = 1, stage_totalValue = Fin 0 \<rparr>)], Fin 0)"
  by code_simp

theorem pipeline_summary_of_three_deals_witness:
  "mset [mk_deal '''' ''bad'', mk_deal ''won'' ''50'', mk_deal ''won'' ''100'']
     = mset [mk_deal ''won'' ''100'', mk_deal ''won'' ''50'', mk_deal '''' ''bad'']
   \<and> (\<exists>p. aggregate unused_rendering
             [mk_deal '''' ''bad'', mk_deal ''won'' ''50'', mk_deal ''won'' ''100''] = Inr p
        \<and> map_of (summary p) ''won'' = Some \<lparr> stage_count = 2, stage_totalValue = Fin 150 \<rparr>
        \<and> map_of (summary p) ''Unknown'' = Some \<lparr> stage_count = 1, stage_totalValue = Fin 0 \<rparr>
        \<and> totalDeals p = 3 \<and> totalValue p = Fin 150)
   \<and> readable unused_rendering unset_deal
   \<and> deal_stage unused_rendering unset_deal = ''Unknown''
   \<and> deal_amount unused_rendering unset_deal = Fin 0
   \<and> tally unused_rendering ([], Fin 0) unset_deal
       = Inr ([(''Unknown'', \<lparr> stage_count = 1, stage_totalValue = Fin 0 \<rparr>)], Fin 0)"
proof -
  have h: "mset [mk_deal '''' ''bad'', mk_deal ''won'' ''50'', mk_deal ''won'' ''100'']
     = mset [mk_deal ''won'' ''100'', mk_deal ''won'' ''50'', mk_deal '''' ''bad'']"
    by (simp add: add_mset_commute)
  note t = pipeline_summary_of_three_deals
             [OF h, where nts = unused_rendering and d = unset_deal and acc = "([], Fin 0)"]
  note rest = t [THEN conjunct2, THEN conjunct2, THEN conjunct2, THEN conjunct2]
  note fallbacks = rest [THEN conjunct2, THEN conjunct2, THEN conjunct2]
  from t [THEN conjunct1] obtain p where p: "aggregate unused_rendering
             [mk_deal '''' ''bad'', mk_deal ''won'' ''50'', mk_deal ''won'' ''100''] = Inr p"
        "map_of (summary p) ''won'' = Some \<lparr> stage_count = 2, stage_totalValue = Fin 150 \<rparr>"
        "map_of (summary p) ''Unknown'' = Some \<lparr> stage_count = 1, stage_totalValue = Fin 0 \<rparr>"
        "totalDeals p = 3" "totalValue p = Fin 150"
    by (elim exE conjE)
  then have ex: "\<exists>p. aggregate unused_rendering
             [mk_deal '''' ''bad'', mk_deal ''won'' ''50'', mk_deal ''won'' ''100''] = Inr p
        \<and> map_of (summary p) ''won'' = Some \<lparr> stage_count = 2, stage_totalValue = Fin 150 \<rparr>
        \<and> map_of (summary p) ''Unknown'' = Some \<lparr> stage_count = 1, stage_totalValue = Fin 0 \<rparr>
        \<and> totalDeals p = 3 \<and> totalValue p = Fin 150"
    by (intro exI [of _ p] conjI)
  have st: "deal_stage unused_rendering unset_deal = ''Unknown''"
    by (rule fallbacks [THEN conjunct1, THEN mp])
       (rule conjI [OF unset_deal_readable unset_deal_fields(1)])
  have am: "deal_amount unused_rendering unset_deal = Fin 0"
    by (rule fallbacks [THEN conjunct2, THEN conjunct2, THEN conjunct2, THEN conjunct2,
                        THEN conjunct1, THEN mp])
       (rule conjI [OF unset_deal_readable disjI2 [OF unset_deal_fields(2)]])
  have "tally unused_rendering ([], Fin 0) unset_deal
      = Inr (record_deal (deal_stage unused_rendering unset_deal)
               (deal_amount unused_rendering unset_deal) ([], Fin 0))"
    by (rule rest [THEN conjunct1, THEN mp]) (rule unset_deal_readable)
  then have ta: "tally unused_rendering ([], Fin 0) unset_deal
       = Inr ([(''Unknown'', \<lparr> stage_count = 1, stage_totalValue = Fin 0 \<rparr>)], Fin 0)"
    by (simp only: st am unset_deal_recorded)
  show ?thesis
    by (intro conjI) (rule h ex unset_deal_readable st am ta)+
qed

subsection \<open>The sums over the stages\<close>

lemma keys_bump [simp]: "map fst (bump stage amount s) = map fst s"
  by (induction s) (auto simp: bump_def)

lemma distinct_record_deal:
  "distinct (map fst (fst acc)) \<Longrightarrow> distinct (map fst (fst (record_deal stage amount acc)))"
  by (auto simp: record_deal_def map_of_eq_None_iff)

lemma distinct_record_all:
  "distinct (map fst (fst acc)) \<Longrightarrow> distinct (map fst (fst (record_all nts acc deals)))"
  by (induction deals arbitrary: acc) (simp_all add: distinct_record_deal)

lemma aggregate_distinct:
  assumes "aggregate nts deals = Inr p"
  shows "distinct (map fst (summary p))"
proof -
  from assms have r: "list_all (readable nts) deals" by (rule aggregate_Inr_readable)
  from assms aggregate_readable [OF r]
  have "summary p = fst (record_all nts ([], Fin 0) deals)" by auto
  then show ?thesis by (simp add: distinct_record_all)
qed

lemma aggregate_entries:
  assumes "aggregate nts deals = Inr p"
  shows "summary p =
    map (\<lambda>k. (k, \<lparr> stage_count = length (stage_amounts nts k deals),
                    stage_totalValue = float_sum (stage_amounts nts k deals) \<rparr>))
        (map fst (summary p))"
proof -
  have "kv = (fst kv, \<lparr> stage_count = length (stage_amounts nts (fst kv) deals),
                         stage_totalValue = float_sum (stage_amounts nts (fst kv) deals) \<rparr>)"
    if "kv \<in> set (summary p)" for kv
  proof -
    from that aggregate_distinct [OF assms]
    have "map_of (summary p) (fst kv) = Some (snd kv)" by simp
    with aggregate_Inr(3) [OF assms, of "fst kv"] show ?thesis
      by (cases kv) (auto split: if_splits)
  qed
  then show ?thesis by (simp add: map_idI comp_def cong: map_cong)
qed

lemma aggregate_keys:
  assumes "aggregate nts deals = Inr p"
  shows "set (map fst (summary p)) = {k. \<not> inherited k \<and> k \<in> deal_stage nts ` set deals}"
proof -
  have "set (map fst (summary p)) = dom (map_of (summary p))" by (simp add: dom_map_of_conv_image_fst)
  also have "\<dots> = {k. \<not> inherited k \<and> k \<in> deal_stage nts ` set deals}"
    by (auto simp: aggregate_Inr(3) [OF assms] dom_def split: if_splits)
  finally show ?thesis .
qed

lemma mset_filter_split:
  "k \<notin> set ks \<Longrightarrow>
     mset (filter (\<lambda>d. f d = k) ds) + mset (filter (\<lambda>d. f d \<in> set ks) ds)
       = mset (filter (\<lambda>d. f d \<in> set (k # ks)) ds)"
  by (induction ds) auto

lemma mset_concat_filters:
  "distinct ks \<Longrightarrow>
     mset (concat (map (\<lambda>k. filter (\<lambda>d. f d = k) ds) ks)) = mset (filter (\<lambda>d. f d \<in> set ks) ds)"
proof (induction ks)
  case Nil
  then show ?case by simp
next
  case (Cons k ks)
  then have "mset (concat (map (\<lambda>k. filter (\<lambda>d. f d = k) ds) (k # ks)))
      = mset (filter (\<lambda>d. f d = k) ds) + mset (filter (\<lambda>d. f d \<in> set ks) ds)"
    by simp
  also have "\<dots> = mset (filter (\<lambda>d. f d \<in> set (k # ks)) ds)"
    using Cons.prems by (intro mset_filter_split) simp
  finally show ?case .
qed

lemma aggregate_partition:
  assumes "aggregate nts deals = Inr p"
  shows "mset (concat (map (\<lambda>k. filter (\<lambda>d. deal_stage nts d = k) deals) (map fst (summary p))))
           = mset (filter (\<lambda>d. \<not> inherited (deal_stage nts d)) deals)"
proof -
  have "filter (\<lambda>d. deal_stage nts d \<in> set (map fst (summary p))) deals
      = filter (\<lambda>d. \<not> inherited (deal_stage nts d)) deals"
    by (rule filter_cong [OF refl]) (simp only: aggregate_keys [OF assms], auto)
  then show ?thesis
    by (simp only: mset_concat_filters [OF aggregate_distinct [OF assms], of "deal_stage nts" deals])
qed

lemma length_concat_sum: "length (concat xss) = sum_list (map length xss)"
  by (induction xss) simp_all

lemma aggregate_counts:
  assumes "aggregate nts deals = Inr p"
  shows "sum_list (stage_counts p) = length (filter (\<lambda>d. \<not> inherited (deal_stage nts d)) deals)"
proof -
  let ?ks = "map fst (summary p)"
  have "stage_counts p = map (\<lambda>k. length (filter (\<lambda>d. deal_stage nts d = k) deals)) ?ks"
    unfolding stage_counts_def
    by (subst aggregate_entries [OF assms]) (simp add: comp_def stage_amounts_def)
  then have "sum_list (stage_counts p)
      = length (concat (map (\<lambda>k. filter (\<lambda>d. deal_stage nts d = k) deals) ?ks))"
    by (simp add: length_concat_sum comp_def)
  also have "\<dots> = size (mset (concat (map (\<lambda>k. filter (\<lambda>d. deal_stage nts d = k) deals) ?ks)))"
    by simp
  also have "\<dots> = length (filter (\<lambda>d. \<not> inherited (deal_stage nts d)) deals)"
    by (simp only: aggregate_partition [OF assms] size_mset)
  finally show ?thesis .
qed

lemma aggregate_amounts:
  assumes "aggregate nts deals = Inr p"
  shows "mset (concat (map (\<lambda>k. stage_amounts nts k deals) (map fst (summary p))))
           = mset (map (deal_amount nts) (filter (\<lambda>d. \<not> inherited (deal_stage nts d)) deals))"
proof -
  have "concat (map (\<lambda>k. stage_amounts nts k deals) (map fst (summary p)))
      = map (deal_amount nts)
          (concat (map (\<lambda>k. filter (\<lambda>d. deal_stage nts d = k) deals) (map fst (summary p))))"
    by (simp add: stage_amounts_def map_concat comp_def)
  then show ?thesis
    by (simp only: mset_map aggregate_partition [OF assms])
qed

subsection \<open>Sums that do not round\<close>

lemma round_half_even_int [simp]: "round_half_even (of_int m) = m"
  by (simp add: round_half_even_def)

lemma bitlen_1: "bitlen 1 = 1"
  by (simp add: bitlen_alt_def)

lemma flog2_of_int:
  assumes "0 < n"
  shows "flog2 (of_int n) = bitlen n - 1"
proof -
  from assms have b: "1 \<le> bitlen n" by (simp add: bitlen_alt_def)
  from bitlen_bounds [OF assms] have "2 ^ nat (bitlen n - 1) \<le> n" by simp
  with b show ?thesis by (simp add: flog2_def bitlen_1 Let_def)
qed

lemma round_double_whole:
  assumes "0 \<le> n" and "n \<le> 2 ^ 53"
  shows "round_double (of_int n) = Fin (of_int n)"
proof (cases "n = 0")
  case True
  then show ?thesis by (simp add: round_double_def)
next
  case False
  with assms have pos: "0 < n" by simp
  define e where "e = bitlen n - 1"
  from pos have e0: "0 \<le> e" by (simp add: e_def bitlen_alt_def)
  from bitlen_bounds [OF pos] have lo: "2 ^ nat e \<le> n"
    by (simp_all add: e_def)
  from lo assms(2) have "(2::int) ^ nat e \<le> 2 ^ 53" by simp
  then have "nat e \<le> 53" by (rule power_le_imp_le_exp [rotated]) simp
  with e0 have e53: "e \<le> 53" by simp
  have fl: "flog2 (of_int n) = e"
    using flog2_of_int [OF pos] by (simp add: e_def)
  have "\<exists>m. m \<noteq> 0 \<and> (of_int n :: rat) / pow2 (e - 52) = of_int m
           \<and> of_int m * pow2 (e - 52) = (of_int n :: rat)"
  proof (cases "e \<le> 52")
    case True
    define k where "k = nat (52 - e)"
    have q: "pow2 (e - 52) = 1 / 2 ^ k"
      using True by (auto simp: pow2_def k_def)
    show ?thesis
      by (rule exI [of _ "n * 2 ^ k"]) (use pos in \<open>simp add: q\<close>)
  next
    case False
    with e53 have e: "e = 53" by simp
    with lo assms(2) have n: "n = 2 ^ 53" by simp
    have q: "pow2 (e - 52) = 2" by (simp add: pow2_def e)
    show ?thesis
      by (rule exI [of _ "2 ^ 52"]) (simp add: q n)
  qed
  then obtain m where m: "m \<noteq> 0" "(of_int n :: rat) / pow2 (e - 52) = of_int m"
    "of_int m * pow2 (e - 52) = (of_int n :: rat)" by blast
  from pos e0 e53 m show ?thesis
    by (simp add: round_double_def fl Let_def max_def)
qed

lemma is_whole_Fin: "is_whole x \<longleftrightarrow> (\<exists>n. 0 \<le> n \<and> x = Fin (of_int n))"
proof
  assume "is_whole x"
  then show "\<exists>n. 0 \<le> n \<and> x = Fin (of_int n)"
    by (cases x) (auto simp: is_whole_def)
next
  assume "\<exists>n. 0 \<le> n \<and> x = Fin (of_int n)"
  then show "is_whole x" by (auto simp: is_whole_def)
qed

lemma whole_Fin [simp]: "whole (Fin (of_int n)) = n"
  by (simp add: whole_def)

lemma whole_nonneg: "is_whole x \<Longrightarrow> 0 \<le> whole x"
  by (auto simp: is_whole_Fin)

lemma num_add_whole:
  assumes "is_whole x" and "is_whole y" and "whole x + whole y \<le> 2 ^ 53"
  shows "num_add x y = Fin (of_int (whole x + whole y))"
proof -
  from assms(1,2) obtain a b where "0 \<le> a" "x = Fin (of_int a)" "0 \<le> b" "y = Fin (of_int b)"
    by (auto simp: is_whole_Fin)
  with assms(3) round_double_whole [of "a + b"] show ?thesis by simp
qed

lemma foldl_num_add_whole:
  assumes "list_all is_whole xs" and "is_whole a" and "whole a + sum_list (map whole xs) \<le> 2 ^ 53"
  shows "foldl num_add a xs = Fin (of_int (whole a + sum_list (map whole xs)))"
  using assms
proof (induction xs arbitrary: a)
  case Nil
  then show ?case by (auto simp: is_whole_Fin)
next
  case (Cons x xs)
  from Cons.prems have x: "is_whole x" and xs: "list_all is_whole xs" by simp_all
  have "0 \<le> sum_list (map whole xs)"
    using xs by (auto intro!: sum_list_nonneg simp: list_all_iff whole_nonneg)
  with Cons.prems have le: "whole a + whole x \<le> 2 ^ 53" by simp
  have step: "num_add a x = Fin (of_int (whole a + whole x))"
    using Cons.prems(2) x le by (rule num_add_whole)
  have "0 \<le> whole a + whole x"
    using Cons.prems(2) x by (simp add: whole_nonneg)
  then have w: "is_whole (Fin (of_int (whole a + whole x)))"
    unfolding is_whole_Fin by blast
  have le2: "whole (Fin (of_int (whole a + whole x))) + sum_list (map whole xs) \<le> 2 ^ 53"
    using Cons.prems(3) by (simp only: whole_Fin list.map sum_list.Cons add.assoc)
  from Cons.IH [OF xs w le2] show ?case
    by (simp only: foldl_Cons step whole_Fin list.map sum_list.Cons add.assoc)
qed

lemma float_sum_whole:
  assumes "list_all is_whole xs" and "sum_list (map whole xs) \<le> 2 ^ 53"
  shows "float_sum xs = Fin (of_int (sum_list (map whole xs)))"
proof -
  have z: "is_whole (Fin 0)" by (simp add: is_whole_def)
  have "whole (Fin 0) = 0" by (simp add: whole_def)
  with foldl_num_add_whole [OF assms(1) z] assms(2) show ?thesis
    by (simp add: float_sum_def)
qed

lemma sum_list_filter_le:
  "list_all (\<lambda>x. 0 \<le> f x) xs \<Longrightarrow> sum_list (map f (filter P xs)) \<le> (sum_list (map f xs) :: int)"
  by (induction xs) auto

lemma sum_list_permuted: "mset xs = mset ys \<Longrightarrow> sum_list (map f xs) = (sum_list (map f ys) :: int)"
  by (metis mset_map sum_mset_sum_list)

lemma sum_list_map_concat:
  "sum_list (map f (concat xss)) = (sum_list (map (\<lambda>xs. sum_list (map f xs)) xss) :: int)"
  by (induction xss) simp_all

lemma stage_sum_whole:
  assumes "list_all is_whole (map (deal_amount nts) deals)"
    and "sum_list (map whole (map (deal_amount nts) deals)) \<le> 2 ^ 53"
  shows "float_sum (stage_amounts nts k deals)
           = Fin (of_int (sum_list (map whole (stage_amounts nts k deals))))"
proof (rule float_sum_whole)
  from assms(1) have nonneg: "list_all (\<lambda>d. 0 \<le> whole (deal_amount nts d)) deals"
    by (simp add: list_all_iff whole_nonneg)
  show "list_all is_whole (stage_amounts nts k deals)"
    using assms(1) by (simp add: stage_amounts_def list_all_iff)
  have "sum_list (map whole (stage_amounts nts k deals))
      \<le> sum_list (map whole (map (deal_amount nts) deals))"
    using sum_list_filter_le [OF nonneg, of "\<lambda>d. deal_stage nts d = k"]
    by (simp add: stage_amounts_def comp_def)
  with assms(2) show "sum_list (map whole (stage_amounts nts k deals)) \<le> 2 ^ 53" by simp
qed

text \<open>
  C3.  When the deals are aggregated, so is every permutation of them, with the same total
  deal count, the same stages and the same count for each stage.  The total value of a
  stage is the running sum of the amounts of that stage's deals and the grand total is the
  running sum of all amounts, in both runs over the same amounts taken in another order:
  the totals are the same up to the rounding of these sums.  Where no sum rounds, as for
  whole amounts that are not negative and add up to at most \<open>2\<^sup>5\<^sup>3\<close>, the two summaries
  have the same entry for every stage and the same grand total.
\<close>

theorem aggregation_is_order_independent:
  assumes "mset deals' = mset deals" and "aggregate nts deals = Inr p"
  shows "\<exists>p'. aggregate nts deals' = Inr p'
    \<and> totalDeals p' = totalDeals p
    \<and> dom (map_of (summary p')) = dom (map_of (summary p))
    \<and> map_option stage_count (map_of (summary p') k) = map_option stage_count (map_of (summary p) k)
    \<and> map_option stage_totalValue (map_of (summary p) k) =
         (if k \<in> dom (map_of (summary p)) then Some (float_sum (stage_amounts nts k deals)) else None)
    \<and> map_option stage_totalValue (map_of (summary p') k) =
         (if k \<in> dom (map_of (summary p)) then Some (float_sum (stage_amounts nts k deals')) else None)
    \<and> mset (stage_amounts nts k deals') = mset (stage_amounts nts k deals)
    \<and> totalValue p = float_sum (map (deal_amount nts) deals)
    \<and> totalValue p' = float_sum (map (deal_amount nts) deals')
    \<and> mset (map (deal_amount nts) deals') = mset (map (deal_amount nts) deals)
    \<and> (list_all is_whole (map (deal_amount nts) deals)
         \<and> sum_list (map whole (map (deal_amount nts) deals)) \<le> 2 ^ 53 \<longrightarrow>
           map_of (summary p') k = map_of (summary p) k \<and> totalValue p' = totalValue p)"
proof -
  from assms(2) have "list_all (readable nts) deals" by (rule aggregate_Inr_readable)
  with assms(1) have "list_all (readable nts) deals'" by (rule readable_permuted)
  then obtain p' where p': "aggregate nts deals' = Inr p'"
    by (simp add: aggregate_readable)
  note a = aggregate_Inr [OF assms(2)] and a' = aggregate_Inr [OF p']
  from assms(1) have set_eq: "set deals' = set deals" by (rule mset_eq_setD)
  from assms(1) have len: "length deals' = length deals" by (rule mset_eq_length)
  have perm: "mset (stage_amounts nts k deals') = mset (stage_amounts nts k deals)" for k
    using assms(1) by (rule stage_amounts_permuted)
  then have len_k: "length (stage_amounts nts k deals') = length (stage_amounts nts k deals)" for k
    by (metis size_mset)
  have all: "mset (map (deal_amount nts) deals') = mset (map (deal_amount nts) deals)"
    using assms(1) by simp
  have dom_eq: "dom (map_of (summary p')) = dom (map_of (summary p))"
    by (auto simp: a(3) a'(3) set_eq split: if_splits)
  have counts: "map_option stage_count (map_of (summary p') k)
      = map_option stage_count (map_of (summary p) k)"
    by (simp add: a(3) a'(3) set_eq len_k)
  have totals: "map_option stage_totalValue (map_of (summary p) k) =
         (if k \<in> dom (map_of (summary p)) then Some (float_sum (stage_amounts nts k deals)) else None)"
    by (simp add: a(3) dom_def)
  have totals': "map_option stage_totalValue (map_of (summary p') k) =
         (if k \<in> dom (map_of (summary p)) then Some (float_sum (stage_amounts nts k deals')) else None)"
    by (simp add: a(3) a'(3) dom_def set_eq)
  have exact: "map_of (summary p') k = map_of (summary p) k \<and> totalValue p' = totalValue p"
    if w: "list_all is_whole (map (deal_amount nts) deals)
         \<and> sum_list (map whole (map (deal_amount nts) deals)) \<le> 2 ^ 53"
  proof -
    from w have ws: "list_all is_whole (map (deal_amount nts) deals)"
      and le: "sum_list (map whole (map (deal_amount nts) deals)) \<le> 2 ^ 53" by simp_all
    from ws set_eq have ws': "list_all is_whole (map (deal_amount nts) deals')"
      by (simp add: list_all_iff)
    have s: "sum_list (map whole (map (deal_amount nts) deals'))
        = sum_list (map whole (map (deal_amount nts) deals))"
      using all by (rule sum_list_permuted)
    with le have le': "sum_list (map whole (map (deal_amount nts) deals')) \<le> 2 ^ 53" by simp
    have "float_sum (map (deal_amount nts) deals') = float_sum (map (deal_amount nts) deals)"
      by (simp only: float_sum_whole [OF ws le] float_sum_whole [OF ws' le'] s)
    then have grand: "totalValue p' = totalValue p" by (simp only: a(2) a'(2))
    have "sum_list (map whole (stage_amounts nts k deals'))
        = sum_list (map whole (stage_amounts nts k deals))"
      using perm by (rule sum_list_permuted)
    then have "float_sum (stage_amounts nts k deals') = float_sum (stage_amounts nts k deals)"
      by (simp only: stage_sum_whole [OF ws le] stage_sum_whole [OF ws' le'])
    then have "map_of (summary p') k = map_of (summary p) k"
      by (simp add: a(3) a'(3) set_eq len_k)
    with grand show ?thesis by simp
  qed
  show ?thesis
    using p' a(1,2) a'(1,2) len dom_eq perm counts totals totals' all exact
    by (intro exI [of _ p']) simp
qed

theorem aggregation_is_order_independent_witness:
  "mset [mk_deal '''' ''bad'', mk_deal ''won'' ''50'', mk_deal ''won'' ''100'']
     = mset [mk_deal ''won'' ''100'', mk_deal ''won'' ''50'', mk_deal '''' ''bad'']
   \<and> aggregate (\<lambda>n. ''0'') [mk_deal ''won'' ''100'', mk_deal ''won'' ''50'', mk_deal '''' ''bad''] =
       Inr \<lparr> summary = [(''won'', \<lparr> stage_count = 2, stage_totalValue = Fin 150 \<rparr>),
                         (''Unknown'', \<lparr> stage_count = 1, stage_totalValue = Fin 0 \<rparr>)],
             totalDeals = 3, totalValue = Fin 150 \<rparr>
   \<and> (\<exists>p'. aggregate (\<lambda>n. ''0'') [mk_deal '''' ''bad'', mk_deal ''won'' ''50'', mk_deal ''won'' ''100''] = Inr p'
         \<and> totalDeals p' = 3
         \<and> dom (map_of (summary p')) = {''won'', ''Unknown''}
         \<and> map_option stage_count (map_of (summary p') ''won'') = Some 2)"
proof -
  let ?p = "\<lparr> summary = [(''won'', \<lparr> stage_count = 2, stage_totalValue = Fin 150 \<rparr>),
                         (''Unknown'', \<lparr> stage_count = 1, stage_totalValue = Fin 0 \<rparr>)],
             totalDeals = 3, totalValue = Fin 150 \<rparr>"
  have h1: "mset [mk_deal '''' ''bad'', mk_deal ''won'' ''50'', mk_deal ''won'' ''100'']
     = mset [mk_deal ''won'' ''100'', mk_deal ''won'' ''50'', mk_deal '''' ''bad'']"
    by (simp add: add_mset_commute)
  have h2: "aggregate (\<lambda>n. ''0'') [mk_deal ''won'' ''100'', mk_deal ''won'' ''50'', mk_deal '''' ''bad''] = Inr ?p"
    by (rule example_orders)
  from aggregation_is_order_independent [OF h1 h2, of "''won''"]
  obtain p' where "aggregate (\<lambda>n. ''0'') [mk_deal '''' ''bad'', mk_deal ''won'' ''50'', mk_deal ''won'' ''100''] = Inr p'"
    "totalDeals p' = totalDeals ?p" "dom (map_of (summary p')) = dom (map_of (summary ?p))"
    "map_option stage_count (map_of (summary p') ''won'') = map_option stage_count (map_of (summary ?p) ''won'')"
    by blast
  then have "\<exists>p'. aggregate (\<lambda>n. ''0'') [mk_deal '''' ''bad'', mk_deal ''won'' ''50'', mk_deal ''won'' ''100''] = Inr p'
         \<and> totalDeals p' = 3
         \<and> dom (map_of (summary p')) = {''won'', ''Unknown''}
         \<and> map_option stage_count (map_of (summary p') ''won'') = Some 2"
    by auto
  with h1 h2 show ?thesis by blast
qed

text \<open>
  C10, as the code has it.  When no deal's stage names a member that a plain object
  inherits, each deal is counted in exactly one stage: \<open>totalDeals\<close> is the sum of the
  stages' counts, and the amounts of the stages are, together, the amounts of the deals.
  The grand \<open>totalValue\<close> is the running sum of all amounts and each stage's \<open>totalValue\<close> is
  the running sum of that stage's amounts, so the grand total and the sum of the stage
  totals agree up to the rounding of these sums; they are equal when no sum rounds, as for
  whole amounts that are not negative and add up to at most \<open>2\<^sup>5\<^sup>3\<close>.
\<close>

theorem stage_sums_match_totals:
  assumes "aggregate nts deals = Inr p"
    and "\<forall>d \<in> set deals. \<not> inherited (deal_stage nts d)"
  shows "totalDeals p = sum_list (stage_counts p)
    \<and> distinct (map fst (summary p))
    \<and> totalValue p = float_sum (map (deal_amount nts) deals)
    \<and> stage_totals p = map (\<lambda>k. float_sum (stage_amounts nts k deals)) (map fst (summary p))
    \<and> mset (concat (map (\<lambda>k. stage_amounts nts k deals) (map fst (summary p))))
        = mset (map (deal_amount nts) deals)
    \<and> (list_all is_whole (map (deal_amount nts) deals)
         \<and> sum_list (map whole (map (deal_amount nts) deals)) \<le> 2 ^ 53 \<longrightarrow>
           totalValue p = float_sum (stage_totals p))"
proof (intro conjI impI)
  let ?ks = "map fst (summary p)"
  let ?as = "map (deal_amount nts) deals"
  from assms(2) have all: "filter (\<lambda>d. \<not> inherited (deal_stage nts d)) deals = deals"
    by (simp add: filter_id_conv)
  show "totalDeals p = sum_list (stage_counts p)"
    by (simp add: aggregate_counts [OF assms(1)] all aggregate_Inr(1) [OF assms(1)])
  show "distinct ?ks" by (rule aggregate_distinct [OF assms(1)])
  show tv: "totalValue p = float_sum ?as" by (rule aggregate_Inr(2) [OF assms(1)])
  show st: "stage_totals p = map (\<lambda>k. float_sum (stage_amounts nts k deals)) ?ks"
    unfolding stage_totals_def
    by (subst aggregate_entries [OF assms(1)]) (simp add: comp_def)
  show part: "mset (concat (map (\<lambda>k. stage_amounts nts k deals) ?ks)) = mset ?as"
    using aggregate_amounts [OF assms(1)] by (simp only: all)
  assume w: "list_all is_whole ?as \<and> sum_list (map whole ?as) \<le> 2 ^ 53"
  then have ws: "list_all is_whole ?as" and le: "sum_list (map whole ?as) \<le> 2 ^ 53"
    by simp_all
  from ws have nonneg: "list_all (\<lambda>d. 0 \<le> whole (deal_amount nts d)) deals"
    by (simp add: list_all_iff whole_nonneg)
  have stage: "float_sum (stage_amounts nts k deals)
      = Fin (of_int (sum_list (map whole (stage_amounts nts k deals))))" for k
  proof (rule float_sum_whole)
    show "list_all is_whole (stage_amounts nts k deals)"
      using ws by (simp add: stage_amounts_def list_all_iff)
    have "sum_list (map whole (stage_amounts nts k deals)) \<le> sum_list (map whole ?as)"
      using sum_list_filter_le [OF nonneg, of "\<lambda>d. deal_stage nts d = k"]
      by (simp add: stage_amounts_def comp_def)
    with le show "sum_list (map whole (stage_amounts nts k deals)) \<le> 2 ^ 53" by simp
  qed
  have sums: "sum_list (map whole (stage_totals p)) = sum_list (map whole ?as)"
  proof -
    have "map whole (stage_totals p)
        = map (\<lambda>k. sum_list (map whole (stage_amounts nts k deals))) ?ks"
      by (simp add: st stage comp_def)
    then have "sum_list (map whole (stage_totals p))
        = sum_list (map whole (concat (map (\<lambda>k. stage_amounts nts k deals) ?ks)))"
      by (simp add: sum_list_map_concat comp_def)
    also have "\<dots> = sum_list (map whole ?as)"
      using part by (rule sum_list_permuted)
    finally show ?thesis .
  qed
  have "list_all is_whole (stage_totals p)"
  proof -
    have "is_whole (float_sum (stage_amounts nts k deals))" for k
      unfolding stage is_whole_Fin
      using nonneg
      by (intro exI [of _ "sum_list (map whole (stage_amounts nts k deals))"] conjI refl
            sum_list_nonneg)
         (auto simp: stage_amounts_def list_all_iff)
    then show ?thesis by (simp add: st list_all_iff)
  qed
  then have "float_sum (stage_totals p) = Fin (of_int (sum_list (map whole (stage_totals p))))"
    using le by (intro float_sum_whole) (simp_all add: sums)
  also have "\<dots> = float_sum ?as"
    using float_sum_whole [OF ws le] by (simp only: sums)
  finally show "totalValue p = float_sum (stage_totals p)" by (simp only: tv)
qed

lemma example_has_no_inherited_stage:
  "\<forall>d \<in> set [mk_deal ''won'' ''100'', mk_deal ''won'' ''50'', mk_deal '''' ''bad''].
     \<not> inherited (deal_stage unused_rendering d)"
  by code_simp

lemma example_amounts:
  "map (deal_amount unused_rendering) [mk_deal ''won'' ''100'', mk_deal ''won'' ''50'', mk_deal '''' ''bad'']
     = [Fin 100, Fin 50, Fin 0]"
  by code_simp

theorem stage_sums_match_totals_witness:
  "aggregate unused_rendering [mk_deal ''won'' ''100'', mk_deal ''won'' ''50'', mk_deal '''' ''bad''] =
     Inr \<lparr> summary = [(''won'', \<lparr> stage_count = 2, stage_totalValue = Fin 150 \<rparr>),
                       (''Unknown'', \<lparr> stage_count = 1, stage_totalValue = Fin 0 \<rparr>)],
           totalDeals = 3, totalValue = Fin 150 \<rparr>
   \<and> list_all (\<lambda>d. \<not> inherited (deal_stage unused_rendering d))
        [mk_deal ''won'' ''100'', mk_deal ''won'' ''50'', mk_deal '''' ''bad'']
   \<and> (3::nat) = sum_list [2, 1]
   \<and> Fin 150 = float_sum [Fin 150, Fin 0]"
proof -
  let ?deals = "[mk_deal ''won'' ''100'', mk_deal ''won'' ''50'', mk_deal '''' ''bad'']"
  let ?p = "\<lparr> summary = [(''won'', \<lparr> stage_count = 2, stage_totalValue = Fin 150 \<rparr>),
                         (''Unknown'', \<lparr> stage_count = 1, stage_totalValue = Fin 0 \<rparr>)],
             totalDeals = 3, totalValue = Fin 150 \<rparr>"
  have h1: "aggregate unused_rendering ?deals = Inr ?p" by (rule example_orders)
  note h2 = example_has_no_inherited_stage
  have w: "list_all is_whole (map (deal_amount unused_rendering) ?deals)
     \<and> sum_list (map whole (map (deal_amount unused_rendering) ?deals)) \<le> 2 ^ 53"
    unfolding example_amounts by (simp add: is_whole_def whole_def)
  from stage_sums_match_totals [OF h1 h2] w
  have "totalDeals ?p = sum_list (stage_counts ?p)" "totalValue ?p = float_sum (stage_totals ?p)"
    by blast+
  then have "(3::nat) = sum_list [2, 1]" "Fin 150 = float_sum [Fin 150, Fin 0]"
    by (simp_all add: stage_counts_def stage_totals_def)
  with h1 h2 show ?thesis unfolding list_all_iff by blast
qed

text \<open>
  C10, as the claim has it, fails in two ways.  The amounts \<open>10000000000000000\<close>, \<open>1\<close> and
  \<open>1\<close> in stages \<open>a\<close>, \<open>b\<close> and \<open>b\<close> give the grand total \<open>10000000000000000\<close> (each \<open>+ 1\<close>
  rounds back) and the stage totals \<open>10000000000000000\<close> and \<open>2\<close>, whose sum is
  \<open>10000000000000002\<close>.  A deal in stage \<open>constructor\<close> is counted in \<open>totalDeals\<close> and in
  the grand total and in no stage.
\<close>

theorem stage_sums_counterexample:
  "aggregate unused_rendering
       [mk_deal ''a'' ''10000000000000000'', mk_deal ''b'' ''1'', mk_deal ''b'' ''1''] =
     Inr \<lparr> summary = [(''a'', \<lparr> stage_count = 1, stage_totalValue = Fin 10000000000000000 \<rparr>),
                       (''b'', \<lparr> stage_count = 2, stage_totalValue = Fin 2 \<rparr>)],
           totalDeals = 3, totalValue = Fin 10000000000000000 \<rparr>
   \<and> float_sum [Fin 10000000000000000, Fin 2] = Fin 10000000000000002
   \<and> Fin 10000000000000000 \<noteq> Fin 10000000000000002
   \<and> aggregate unused_rendering [mk_deal ''constructor'' ''5''] =
       Inr \<lparr> summary = [], totalDeals = 1, totalValue = Fin 5 \<rparr>
   \<and> (1::nat) \<noteq> sum_list []"
  by code_simp

section \<open>Successful calls\<close>

lemma call_api_succeeds:
  assumes "\<forall>req \<in> set (fst (call_api e (Inr (endpoint, opts)) finish)). api_success e req"
  shows "\<exists>data. call_api e (Inr (endpoint, opts)) finish
                  = ([fst (hubspotRequest e endpoint opts)], finish data)
          \<and> (if suffix ''/search'' (HUBSPOT_API_BASE @ endpoint)
              then search_reply data else crm_record data)"
proof -
  let ?req = "fst (hubspotRequest e endpoint opts)"
  from assms have "api_success e ?req" by simp
  then obtain resp data where r: "fetch e ?req = Inr resp" "ok resp" "resp_json resp = Inr data"
    and shape: "if suffix ''/search'' (url ?req) then search_reply data else crm_record data"
    by (auto simp: api_success_def split: sum.splits)
  from hubspotRequest_ok [OF r(1,2)] r(3)
  have "call_api e (Inr (endpoint, opts)) finish = ([?req], finish data)" by simp
  with shape show ?thesis by (auto simp: hubspotRequest_sent)
qed

lemma search_endpoints:
  "suffix ''/search'' (HUBSPOT_API_BASE @ ''/crm/v3/objects/contacts/search'')"
  "suffix ''/search'' (HUBSPOT_API_BASE @ ''/crm/v3/objects/deals/search'')"
  "\<not> suffix ''/search'' (HUBSPOT_API_BASE @ ''/crm/v3/objects/contacts'')"
  "\<not> suffix ''/search'' (HUBSPOT_API_BASE @ ''/crm/v3/objects/deals'')"
  by code_simp+

lemma search_reply_results:
  assumes "search_reply data"
  shows "\<exists>rs. get_prop data ''results'' = Inr (JArr rs) \<and> list_all crm_record rs"
proof -
  from assms obtain kvs where d: "data = JObj kvs"
    by (cases data) (simp_all add: search_reply_def)
  with assms obtain v where v: "map_of kvs ''results'' = Some v"
    by (cases "map_of kvs ''results''") (simp_all add: search_reply_def)
  with assms d obtain rs where "v = JArr rs" "list_all crm_record rs"
    by (cases v) (simp_all add: search_reply_def)
  with d v show ?thesis by (simp add: lookup_def)
qed

lemma scalar_lookup: "list_all (\<lambda>kv. scalar (snd kv)) ps \<Longrightarrow> scalar (lookup ps k)"
proof (cases "map_of ps k")
  case None
  then show ?thesis by (simp add: lookup_def scalar_def)
next
  case (Some v)
  assume "list_all (\<lambda>kv. scalar (snd kv)) ps"
  moreover from Some have "(k, v) \<in> set ps" by (rule map_of_SomeD)
  ultimately have "scalar v" by (auto simp: list_all_iff)
  with Some show ?thesis by (simp add: lookup_def)
qed

lemma crm_record_id:
  assumes "crm_record data"
  shows "\<exists>v. get_prop data ''id'' = Inr v \<and> scalar v"
proof -
  from assms obtain kvs where "data = JObj kvs" "scalar (lookup kvs ''id'')"
    by (cases data) (simp_all add: crm_record_def)
  then show ?thesis by simp
qed

lemma crm_record_readable:
  assumes "crm_record d"
  shows "readable nts d"
proof -
  from assms obtain kvs where d: "d = JObj kvs"
    by (cases d) (simp_all add: crm_record_def)
  with assms obtain v where v: "map_of kvs ''properties'' = Some v"
    by (cases "map_of kvs ''properties''") (simp_all add: crm_record_def)
  with assms d obtain ps where ps: "v = JObj ps" "list_all (\<lambda>kv. scalar (snd kv)) ps"
    by (cases v) (simp_all add: crm_record_def)
  from d v ps(1) have "field d ''properties'' = JObj ps" by (simp add: field_def lookup_def)
  then show ?thesis
    by (rule scalar_readable) (rule scalar_lookup [OF ps(2)])+
qed

lemma summarize_records:
  assumes "list_all crm_record rs"
  shows "\<exists>p. summarize_results nts (JArr rs) = Inr p"
proof -
  from assms have "list_all (readable nts) rs"
    by (auto simp: list_all_iff crm_record_readable)
  then show ?thesis by (simp add: aggregate_readable)
qed

lemma created_text_record:
  assumes "crm_record data"
  shows "\<exists>t. created_text e what data = Inr (text_result t)"
proof -
  from crm_record_id [OF assms] obtain v where v: "get_prop data ''id'' = Inr v" "scalar v"
    by blast
  from scalar_converts [OF v(2)] obtain t where "to_string (number_to_string e) v = Inr t" ..
  with v(1) show ?thesis unfolding created_text_def by (simp only: bind_Inr) blast
qed

lemma results_rendered:
  assumes "search_reply data"
  shows "\<exists>t. bind (get_prop data ''results'') (\<lambda>results.
            Inr (text_result (JSON_stringify e results))) = Inr (text_result t)"
proof -
  from search_reply_results [OF assms] obtain rs where "get_prop data ''results'' = Inr (JArr rs)"
    by blast
  then show ?thesis by auto
qed

lemma call_api_result:
  assumes "\<forall>req \<in> set (fst (call_api e build finish)). api_success e req"
    and "\<exists>opts. build = Inr (endpoint, opts)"
    and "\<And>data. (if suffix ''/search'' (HUBSPOT_API_BASE @ endpoint)
                  then search_reply data else crm_record data)
            \<Longrightarrow> \<exists>t. finish data = Inr (text_result t)"
  shows "\<exists>req t. call_api e build finish = ([req], Inr (text_result t))"
proof -
  from assms(2) obtain opts where b: "build = Inr (endpoint, opts)" ..
  from call_api_succeeds [OF assms(1) [unfolded b]] obtain data
    where c: "call_api e (Inr (endpoint, opts)) finish
                = ([fst (hubspotRequest e endpoint opts)], finish data)"
      and shape: "if suffix ''/search'' (HUBSPOT_API_BASE @ endpoint)
                  then search_reply data else crm_record data"
    by blast
  from assms(3) [OF shape] obtain t where "finish data = Inr (text_result t)" ..
  with c b show ?thesis by auto
qed

text \<open>
  C8.  For each of the six tools of the registry and arguments that meet its schema in the
  required fields: when every request the call sends is answered with a success status and
  a JSON body of the endpoint's shape (a record, or the records of a search, each with an
  id and property values that are no objects or arrays), the call sends one request and its
  result carries no \<open>isError\<close>.
\<close>

theorem valid_call_succeeds:
  assumes "d \<in> set listTools" and "valid_args d args"
    and "\<forall>req \<in> set (fst (invoke e \<lparr> name = tool_name d, arguments = args \<rparr>)). api_success e req"
  shows "isError (snd (invoke e \<lparr> name = tool_name d, arguments = args \<rparr>)) = None
    \<and> isError (snd (invoke e \<lparr> name = tool_name d, arguments = args \<rparr>)) \<noteq> Some True
    \<and> length (fst (invoke e \<lparr> name = tool_name d, arguments = args \<rparr>)) = 1"
proof -
  let ?r = "\<lparr> name = tool_name d, arguments = args \<rparr>"
  from assms(2) obtain kvs where args: "args = JObj kvs"
    by (cases args) (simp_all add: valid_args_def)
  from assms(3) have ok: "\<forall>req \<in> set (fst (dispatch e ?r)). api_success e req"
    by (simp add: invoke_eq)
  have "\<exists>req t. dispatch e ?r = ([req], Inr (text_result t))"
  proof -
    from assms(1) consider
        (sc) "tool_name d = ''search_contacts''" | (gc) "d = listTools ! 1"
      | (cc) "tool_name d = ''create_contact''" | (sd) "tool_name d = ''search_deals''"
      | (cd) "tool_name d = ''create_deal''" | (ps) "tool_name d = ''get_pipeline_summary''"
      by (auto simp: listTools_def)
    then show ?thesis
    proof cases
      case sc
      then have eq: "dispatch e ?r = search_contacts e args" by (simp add: dispatch_def)
      show ?thesis
        unfolding eq search_contacts_def
      proof (rule call_api_result [where endpoint = "''/crm/v3/objects/contacts/search''"])
        show "\<forall>req \<in> set (fst (call_api e
            (bind (get_prop args ''limit'') (\<lambda>l.
             bind (get_prop args ''query'') (\<lambda>query.
               Inr (''/crm/v3/objects/contacts/search'',
                    post (JObj
                      [(''filterGroups'',
                        JArr [filter_on ''email'' ''CONTAINS_TOKEN'' query,
                              filter_on ''firstname'' ''CONTAINS_TOKEN'' query,
                              filter_on ''lastname'' ''CONTAINS_TOKEN'' query]),
                       (''properties'',
                        JArr [JStr ''firstname'', JStr ''lastname'', JStr ''email'', JStr ''phone'',
                              JStr ''company'']),
                       (''limit'', js_or l (JNum (Fin 10)))])))))
            (\<lambda>data. bind (get_prop data ''results'') (\<lambda>results.
               Inr (text_result (JSON_stringify e results)))))). api_success e req"
          using ok unfolding eq search_contacts_def .
      qed (simp_all add: args search_endpoints results_rendered)
    next
      case gc
      then have n: "tool_name d = ''get_contact''" by (simp add: listTools_def)
      then have eq: "dispatch e ?r = get_contact e args" by (simp add: dispatch_def)
      from gc assms(2) args obtain s where s: "get_prop args ''contact_id'' = Inr (JStr s)"
        by (auto simp: listTools_def valid_args_def lookup_def
              split: option.splits elim: has_type.elims)
      show ?thesis
      proof (cases "CHR ''@'' \<in> set s")
        case True
        note eq' = get_contact_by_email [OF s True]
        show ?thesis
          unfolding eq eq'
        proof (rule call_api_result [where endpoint = "''/crm/v3/objects/contacts/search''"])
          show "\<forall>req \<in> set (fst (call_api e
              (Inr (''/crm/v3/objects/contacts/search'',
                    post (JObj
                      [(''filterGroups'', JArr [filter_on ''email'' ''EQ'' (JStr s)]),
                       (''properties'', JArr (map JStr contact_properties)),
                       (''limit'', JNum (Fin 1))])))
              (\<lambda>searchData. bind (get_prop searchData ''results'') (\<lambda>results.
                 bind (get_first results) (\<lambda>data.
                   Inr (text_result (JSON_stringify e data))))))). api_success e req"
            using ok unfolding eq eq' .
        next
          fix data
          assume "if suffix ''/search'' (HUBSPOT_API_BASE @ ''/crm/v3/objects/contacts/search'')
                  then search_reply data else crm_record data"
          then have "search_reply data" by (simp add: search_endpoints)
          from search_reply_results [OF this]
          show "\<exists>t. bind (get_prop data ''results'') (\<lambda>results.
                 bind (get_first results) (\<lambda>data.
                   Inr (text_result (JSON_stringify e data)))) = Inr (text_result t)"
            by auto
        qed simp
      next
        case False
        note eq' = get_contact_by_id [OF s False]
        show ?thesis
          unfolding eq eq'
        proof (rule call_api_result [where endpoint = "''/crm/v3/objects/contacts/'' @ s
               @ ''?properties=firstname,lastname,email,phone,company,lifecyclestage''"])
          show "\<forall>req \<in> set (fst (call_api e
              (Inr (''/crm/v3/objects/contacts/'' @ s
                      @ ''?properties=firstname,lastname,email,phone,company,lifecyclestage'',
                    no_options))
              (\<lambda>data. Inr (text_result (JSON_stringify e data))))). api_success e req"
            using ok unfolding eq eq' .
        qed auto
      qed
    next
      case cc
      then have eq: "dispatch e ?r = create_contact e args" by (simp add: dispatch_def)
      show ?thesis
        unfolding eq create_contact_def
      proof (rule call_api_result [where endpoint = "''/crm/v3/objects/contacts''"])
        show "\<forall>req \<in> set (fst (call_api e
            (Inr (''/crm/v3/objects/contacts'', post (JObj [(''properties'', args)])))
            (created_text e ''Contact''))). api_success e req"
          using ok unfolding eq create_contact_def .
      qed (simp_all add: search_endpoints created_text_record)
    next
      case sd
      then have eq: "dispatch e ?r = search_deals e args" by (simp add: dispatch_def)
      show ?thesis
        unfolding eq search_deals_def
      proof (rule call_api_result [where endpoint = "''/crm/v3/objects/deals/search''"])
        show "\<forall>req \<in> set (fst (call_api e
            (bind (get_prop args ''limit'') (\<lambda>l.
             bind (get_prop args ''pipeline_stage'') (\<lambda>pipeline_stage.
               let filterGroups =
                     (if truthy pipeline_stage then [filter_on ''dealstage'' ''EQ'' pipeline_stage] else [])
               in Inr (''/crm/v3/objects/deals/search'',
                       post (JObj
                         [(''filterGroups'',
                           if 0 < length filterGroups then JArr filterGroups else JUndefined),
                          (''properties'',
                           JArr [JStr ''dealname'', JStr ''amount'', JStr ''dealstage'', JStr ''pipeline'',
                                 JStr ''closedate'']),
                          (''limit'', js_or l (JNum (Fin 20)))])))))
            (\<lambda>data. bind (get_prop data ''results'') (\<lambda>results.
               Inr (text_result (JSON_stringify e results)))))). api_success e req"
          using ok unfolding eq search_deals_def .
      qed (simp_all add: args search_endpoints results_rendered Let_def)
    next
      case cd
      then have eq: "dispatch e ?r = create_deal e args" by (simp add: dispatch_def)
      show ?thesis
        unfolding eq create_deal_def
      proof (rule call_api_result [where endpoint = "''/crm/v3/objects/deals''"])
        show "\<forall>req \<in> set (fst (call_api e
            (bind (deal_properties args) (\<lambda>properties.
               Inr (''/crm/v3/objects/deals'', post (JObj [(''properties'', properties)]))))
            (created_text e ''Deal''))). api_success e req"
          using ok unfolding eq create_deal_def .
      qed (simp_all add: args deal_properties_def search_endpoints created_text_record)
    next
      case ps
      then have eq: "dispatch e ?r = get_pipeline_summary e args" by (simp add: dispatch_def)
      show ?thesis
        unfolding eq get_pipeline_summary_def
      proof (rule call_api_result [where endpoint = "''/crm/v3/objects/deals/search''"])
        show "\<forall>req \<in> set (fst (call_api e
            (Inr (''/crm/v3/objects/deals/search'',
                  post (JObj
                    [(''properties'', JArr [JStr ''dealname'', JStr ''amount'', JStr ''dealstage'']),
                     (''limit'', JNum (Fin 100))])))
            (\<lambda>data. bind (get_prop data ''results'') (\<lambda>results.
               bind (summarize_results (number_to_string e) results) (\<lambda>p.
                 Inr (text_result (Some
                   (''Pipeline Summary:'' @ [CHR 0x0A]
                      @ interpolate (JSON_stringify e (summary_value p)))))))))). api_success e req"
          using ok unfolding eq get_pipeline_summary_def .
      next
        fix data
        assume "if suffix ''/search'' (HUBSPOT_API_BASE @ ''/crm/v3/objects/deals/search'')
                then search_reply data else crm_record data"
        then have "search_reply data" by (simp add: search_endpoints)
        from search_reply_results [OF this] obtain rs
          where rs: "get_prop data ''results'' = Inr (JArr rs)" "list_all crm_record rs" by blast
        from summarize_records [OF rs(2), of "number_to_string e"] obtain p
          where "summarize_results (number_to_string e) (JArr rs) = Inr p" ..
        with rs(1) show "\<exists>t. bind (get_prop data ''results'') (\<lambda>results.
               bind (summarize_results (number_to_string e) results) (\<lambda>p.
                 Inr (text_result (Some
                   (''Pipeline Summary:'' @ [CHR 0x0A]
                      @ interpolate (JSON_stringify e (summary_value p))))))) = Inr (text_result t)"
          by (simp only: bind_Inr) blast
      qed simp
    qed
  qed
  then show ?thesis by (auto simp: invoke_eq text_result_def)
qed

theorem valid_call_succeeds_witness:
  "listTools ! 5 \<in> set listTools
   \<and> valid_args (listTools ! 5) (JObj [])
   \<and> list_all
        (api_success
          (answering (success_with (JObj [(''results'',
             JArr [mk_deal ''won'' ''100'', mk_deal ''won'' ''50'', mk_deal '''' ''bad''])]))))
        (fst (invoke
          (answering (success_with (JObj [(''results'',
             JArr [mk_deal ''won'' ''100'', mk_deal ''won'' ''50'', mk_deal '''' ''bad''])])))
          \<lparr> name = tool_name (listTools ! 5), arguments = JObj [] \<rparr>))
   \<and> tool_name (listTools ! 5) = ''get_pipeline_summary''
   \<and> isError (snd (invoke
          (answering (success_with (JObj [(''results'',
             JArr [mk_deal ''won'' ''100'', mk_deal ''won'' ''50'', mk_deal '''' ''bad''])])))
          \<lparr> name = tool_name (listTools ! 5), arguments = JObj [] \<rparr>)) = None"
proof -
  let ?e = "answering (success_with (JObj [(''results'',
             JArr [mk_deal ''won'' ''100'', mk_deal ''won'' ''50'', mk_deal '''' ''bad''])]))"
  have h1: "listTools ! 5 \<in> set listTools" by (simp add: listTools_def)
  have h2: "valid_args (listTools ! 5) (JObj [])" by (simp add: listTools_def valid_args_def)
  have n: "tool_name (listTools ! 5) = ''get_pipeline_summary''" by (simp add: listTools_def)
  have h3: "\<forall>req \<in> set (fst (invoke ?e \<lparr> name = tool_name (listTools ! 5), arguments = JObj [] \<rparr>)).
        api_success ?e req"
    by code_simp
  from valid_call_succeeds [OF h1 h2 h3] h1 h2 h3 n show ?thesis
    unfolding list_all_iff by blast
qed

end
